theory Spec2Isabelle
  imports Complex_Main "HOL-Library.Multiset" "HOL-Library.Char_ord"
    "HOL-Library.List_Lexorder" "HOL-Library.Product_Lexorder"
begin

section \<open>Calendar dates\<close>

text \<open>
  The column \<open>FECHA\<close> holds calendar dates. A date is kept as its fields (year, month,
  day); dates are ordered by their proleptic Gregorian day number, which is what
  comparing two timestamps and subtracting a number of days from one amount to.
  Time of day and the finite range of the timestamp type are not modelled.
\<close>

record date =
  d_year :: int
  d_month :: int
  d_day :: int

definition isleap :: "int \<Rightarrow> bool" where
  "isleap y = (y mod 4 = 0 \<and> (y mod 100 \<noteq> 0 \<or> y mod 400 = 0))"

definition days_in_month :: "int \<Rightarrow> int \<Rightarrow> int" where
  "days_in_month y m =
     (if m = 2 then (if isleap y then 29 else 28)
      else if m = 4 \<or> m = 6 \<or> m = 9 \<or> m = 11 then 30 else 31)"

definition valid_date :: "date \<Rightarrow> bool" where
  "valid_date d =
     (1 \<le> d_month d \<and> d_month d \<le> 12 \<and> 1 \<le> d_day d
      \<and> d_day d \<le> days_in_month (d_year d) (d_month d))"

definition days_before_year :: "int \<Rightarrow> int" where
  "days_before_year y =
     (let p = y - 1 in p * 365 + p div 4 - p div 100 + p div 400)"

definition days_before_month :: "int \<Rightarrow> int \<Rightarrow> int" where
  "days_before_month y m =
     (if m \<le> 1 then 0 else if m = 2 then 31
      else (if m = 3 then 59 else if m = 4 then 90 else if m = 5 then 120
            else if m = 6 then 151 else if m = 7 then 181 else if m = 8 then 212
            else if m = 9 then 243 else if m = 10 then 273 else if m = 11 then 304
            else 334)
           + (if isleap y then 1 else 0))"

definition toordinal :: "date \<Rightarrow> int" where
  "toordinal d =
     days_before_year (d_year d) + days_before_month (d_year d) (d_month d) + d_day d"

text \<open>
  \<open>relativedelta_add d yrs mths\<close> is \<open>d + relativedelta(years=yrs, months=mths)\<close> of
  the dateutil library: the year and the month are shifted, a month outside 1..12 carries
  into the year, and the day is clamped to the length of the month reached.
  \<open>relativedelta_sub\<close> is the subtraction, which negates the offsets and adds.
\<close>

definition relativedelta_add :: "date \<Rightarrow> int \<Rightarrow> int \<Rightarrow> date" where
  "relativedelta_add other yrs mths =
     (let year0 = d_year other + yrs;
          month0 = d_month other + mths;
          year = (if month0 > 12 then year0 + 1 else if month0 < 1 then year0 - 1 else year0);
          month = (if month0 > 12 then month0 - 12 else if month0 < 1 then month0 + 12 else month0);
          day = min (days_in_month year month) (d_day other)
      in \<lparr>d_year = year, d_month = month, d_day = day\<rparr>)"

definition relativedelta_sub :: "date \<Rightarrow> int \<Rightarrow> int \<Rightarrow> date" where
  "relativedelta_sub other yrs mths = relativedelta_add other (- yrs) (- mths)"

section \<open>Numbers, missing values and rounding\<close>

text \<open>
  A float is an exact rational or NaN; binary representation error is not modelled.
  \<open>py_round2\<close> is \<open>round(x, 2)\<close> on a numpy float: scale by 100, round to the nearest
  integer with ties going to the even one, scale back. NaN stays NaN.
\<close>

datatype pyfloat = Fin rat | NaN

definition rint :: "rat \<Rightarrow> int" where
  "rint x =
     (let f = \<lfloor>x\<rfloor>; d = x - of_int f
      in if d < 1/2 then f else if 1/2 < d then f + 1
         else if even f then f else f + 1)"

definition round2 :: "rat \<Rightarrow> rat" where
  "round2 x = of_int (rint (x * 100)) / 100"

fun py_round2 :: "pyfloat \<Rightarrow> pyfloat" where
  "py_round2 (Fin x) = Fin (round2 x)"
| "py_round2 NaN = NaN"

text \<open>The mean of a column: NaN on an empty column.\<close>

definition mean :: "rat list \<Rightarrow> pyfloat" where
  "mean xs = (if xs = [] then NaN else Fin (sum_list xs / of_nat (length xs)))"

section \<open>The statistics of one reservoir\<close>

record raw_record =
  AMBITO_NOMBRE :: string
  EMBALSE_NOMBRE :: string
  FECHA :: date
  AGUA_TOTAL :: rat
  AGUA_ACTUAL :: rat

record stats =
  k_aa :: pyfloat
  k_at :: pyfloat
  k_f :: date
  k_m1s :: pyfloat
  k_m2s :: pyfloat
  k_m1m :: pyfloat
  k_ma1 :: "pyfloat option"
  k_h3a :: pyfloat
  k_h5a :: pyfloat
  k_h10a :: pyfloat
  k_h20a :: pyfloat
  k_ht :: pyfloat

text \<open>\<open>sort_values('FECHA', ascending=False)\<close>: most recent first.\<close>

definition sort_values_desc :: "raw_record list \<Rightarrow> raw_record list" where
  "sort_values_desc df = sort_key (\<lambda>r. - toordinal (FECHA r)) df"

text \<open>The rows dated at or after \<open>fecha_referencia - Timedelta(days=n)\<close>.\<close>

definition df_dias :: "raw_record list \<Rightarrow> date \<Rightarrow> int \<Rightarrow> raw_record list" where
  "df_dias df fecha_referencia n =
     filter (\<lambda>r. toordinal (FECHA r) \<ge> toordinal fecha_referencia - n) df"

definition df_hist_mes :: "raw_record list \<Rightarrow> int \<Rightarrow> raw_record list" where
  "df_hist_mes df mes_ref = filter (\<lambda>r. d_month (FECHA r) = mes_ref) df"

text \<open>The rows \<open>media_historica(anios)\<close> averages.\<close>

definition df_historica :: "raw_record list \<Rightarrow> date \<Rightarrow> int \<Rightarrow> raw_record list" where
  "df_historica hist_mes fecha_referencia anios =
     (let fecha_limite = relativedelta_sub fecha_referencia anios 0
      in filter (\<lambda>r. toordinal (FECHA r) \<ge> toordinal fecha_limite) hist_mes)"

definition media_historica :: "raw_record list \<Rightarrow> date \<Rightarrow> int \<Rightarrow> pyfloat" where
  "media_historica hist_mes fecha_referencia anios =
     mean (map AGUA_ACTUAL (df_historica hist_mes fecha_referencia anios))"

definition df_anio_ant :: "raw_record list \<Rightarrow> date \<Rightarrow> raw_record list" where
  "df_anio_ant df fecha_referencia =
     (let mes_ref = d_month fecha_referencia;
          fecha_anio_ant_inicio = relativedelta_sub fecha_referencia 1 1;
          fecha_anio_ant_fin = relativedelta_add (relativedelta_sub fecha_referencia 1 0) 0 1
      in filter (\<lambda>r. toordinal (FECHA r) > toordinal fecha_anio_ant_inicio
                    \<and> toordinal (FECHA r) \<le> toordinal fecha_anio_ant_fin
                    \<and> d_month (FECHA r) = mes_ref) df)"

text \<open>
  \<open>calcular_estadisticas_embalse\<close>: \<open>None\<close> stands for the empty series returned on an
  empty group. In the field \<open>ma1\<close>, \<open>None\<close> is Python's \<open>None\<close>.
\<close>

definition calcular_estadisticas_embalse :: "raw_record list \<Rightarrow> stats option" where
  "calcular_estadisticas_embalse df_embalse0 =
     (case sort_values_desc df_embalse0 of
        [] \<Rightarrow> None
      | r0 # rest \<Rightarrow>
          (let df_embalse = r0 # rest;
               fecha_referencia = FECHA r0;
               mes_ref = d_month fecha_referencia;
               df_1s = df_dias df_embalse fecha_referencia 7;
               df_2s = df_dias df_embalse fecha_referencia 14;
               df_1m = df_dias df_embalse fecha_referencia 30;
               hist_mes = df_hist_mes df_embalse mes_ref;
               anio_ant = df_anio_ant df_embalse fecha_referencia
           in Some \<lparr>
                k_aa = py_round2 (Fin (AGUA_ACTUAL r0)),
                k_at = py_round2 (Fin (AGUA_TOTAL r0)),
                k_f = fecha_referencia,
                k_m1s = py_round2 (mean (map AGUA_ACTUAL df_1s)),
                k_m2s = py_round2 (mean (map AGUA_ACTUAL df_2s)),
                k_m1m = py_round2 (mean (map AGUA_ACTUAL df_1m)),
                k_ma1 = (if anio_ant \<noteq> [] then Some (py_round2 (mean (map AGUA_ACTUAL anio_ant)))
                       else None),
                k_h3a = py_round2 (media_historica hist_mes fecha_referencia 3),
                k_h5a = py_round2 (media_historica hist_mes fecha_referencia 5),
                k_h10a = py_round2 (media_historica hist_mes fecha_referencia 10),
                k_h20a = py_round2 (media_historica hist_mes fecha_referencia 20),
                k_ht = py_round2 (mean (map AGUA_ACTUAL hist_mes))
              \<rparr>))"

section \<open>The assembled record of one reservoir\<close>

text \<open>
  A cell of the grouped table is a float, a string or Python's \<open>None\<close>.
  \<open>where_notnull\<close> is \<open>df.where(pd.notnull(df), None)\<close> on one cell: a cell that is
  NaN or \<open>None\<close> becomes \<open>None\<close>, every other cell is kept.
\<close>

datatype cell = CFloat pyfloat | CStr string | CNone

fun notnull :: "cell \<Rightarrow> bool" where
  "notnull (CFloat NaN) = False"
| "notnull CNone = False"
| "notnull (CFloat (Fin x)) = True"
| "notnull (CStr s) = True"

definition where_notnull :: "cell \<Rightarrow> cell" where
  "where_notnull c = (if notnull c then c else CNone)"

text \<open>Decimal digits of a natural number, and padding with zeros on the left.\<close>

definition digit :: "nat \<Rightarrow> char" where
  "digit n = char_of (48 + n)"

fun str_nat :: "nat \<Rightarrow> string" where
  "str_nat n = (if n < 10 then [digit n] else str_nat (n div 10) @ [digit (n mod 10)])"

declare str_nat.simps [simp del]

definition zfill :: "nat \<Rightarrow> string \<Rightarrow> string" where
  "zfill w s = replicate (w - length s) (CHR ''0'') @ s"

text \<open>\<open>strftime('%Y-%m-%d')\<close>.\<close>

definition strftime :: "date \<Rightarrow> string" where
  "strftime d =
     zfill 4 (str_nat (nat (d_year d))) @ ''-'' @ zfill 2 (str_nat (nat (d_month d)))
     @ ''-'' @ zfill 2 (str_nat (nat (d_day d)))"

text \<open>
  The row of one group after \<open>reset_index\<close>, the renaming of the two grouping columns
  and \<open>where_notnull\<close>, as the ordered dictionary that \<open>to_dict(orient='records')\<close>
  gives.
\<close>

definition fila :: "string \<Rightarrow> string \<Rightarrow> stats \<Rightarrow> (string \<times> cell) list" where
  "fila ambito embalse s =
     map (\<lambda>(k, c). (k, where_notnull c))
       [(''an'', CStr ambito), (''en'', CStr embalse),
        (''aa'', CFloat (k_aa s)), (''at'', CFloat (k_at s)),
        (''f'', CStr (strftime (k_f s))),
        (''m1s'', CFloat (k_m1s s)), (''m2s'', CFloat (k_m2s s)),
        (''m1m'', CFloat (k_m1m s)),
        (''ma1'', (case k_ma1 s of None \<Rightarrow> CNone | Some x \<Rightarrow> CFloat x)),
        (''h3a'', CFloat (k_h3a s)), (''h5a'', CFloat (k_h5a s)),
        (''h10a'', CFloat (k_h10a s)), (''h20a'', CFloat (k_h20a s)),
        (''ht'', CFloat (k_ht s))]"

section \<open>The statistics in the words of the specification\<close>

text \<open>
  The reference date is a date of the series that no other date exceeds; the arithmetic
  mean is the sum over the count; each window is a set of records given by its bounds.
\<close>

definition is_reference_date :: "raw_record list \<Rightarrow> date \<Rightarrow> bool" where
  "is_reference_date rs ref =
     (ref \<in> FECHA ` set rs \<and> (\<forall>r\<in>set rs. toordinal (FECHA r) \<le> toordinal ref))"

definition arithmetic_mean :: "rat list \<Rightarrow> rat" where
  "arithmetic_mean xs = sum_list xs / of_nat (length xs)"

definition rolling_window :: "raw_record list \<Rightarrow> date \<Rightarrow> int \<Rightarrow> raw_record list" where
  "rolling_window rs ref n =
     filter (\<lambda>r. toordinal ref - n \<le> toordinal (FECHA r)
                  \<and> toordinal (FECHA r) \<le> toordinal ref) rs"

definition month_cohort :: "raw_record list \<Rightarrow> date \<Rightarrow> raw_record list" where
  "month_cohort rs ref = filter (\<lambda>r. d_month (FECHA r) = d_month ref) rs"

definition hist_window :: "raw_record list \<Rightarrow> date \<Rightarrow> int \<Rightarrow> raw_record list" where
  "hist_window rs ref k =
     filter (\<lambda>r. toordinal (relativedelta_sub ref k 0) \<le> toordinal (FECHA r))
       (month_cohort rs ref)"

definition prior_year_window :: "raw_record list \<Rightarrow> date \<Rightarrow> raw_record list" where
  "prior_year_window rs ref =
     (let year_ago = relativedelta_sub ref 1 0;
          lo = relativedelta_sub year_ago 0 1;
          hi = relativedelta_add year_ago 0 1
      in filter (\<lambda>r. toordinal lo < toordinal (FECHA r)
                    \<and> toordinal (FECHA r) \<le> toordinal hi
                    \<and> d_month (FECHA r) = d_month ref) rs)"


section \<open>The output file\<close>

text \<open>
  \<open>METADATA\<close> is a dictionary of a string and a dictionary of strings, in the order in
  which the source writes its keys.
\<close>

datatype meta = MStr string | MDict "(string \<times> string) list"

definition METADATA :: "(string \<times> meta) list" where
  "METADATA =
     [(''fuente'', MStr ''MITECO''),
      (''mapeo'', MDict
        [(''an'', ''AMBITO_NOMBRE''),
         (''en'', ''EMBALSE_NOMBRE''),
         (''at'', ''AGUA_TOTAL''),
         (''aa'', ''AGUA_ACTUAL''),
         (''f'', ''FECHA_ULTIMO_DATO''),
         (''m1s'', ''Media_Ultima_Semana''),
         (''m2s'', ''Media_Ultimas_2_Semanas''),
         (''m1m'', ''Media_Ultimo_Mes''),
         (''ma1'', ''Media_Mismo_Mes_Anio_Anterior''),
         (''h3a'', ''Media_Historica_Mes_3_Anios''),
         (''h5a'', ''Media_Historica_Mes_5_Anios''),
         (''h10a'', ''Media_Historica_Mes_10_Anios''),
         (''h20a'', ''Media_Historica_Mes_20_Anios''),
         (''ht'', ''Media_Historica_Mes_Total'')])]"

text \<open>
  The JSON encoder of the standard library, as far as the program uses it. A string is
  quoted, with the quote, the backslash and the control characters escaped
  (\<open>ensure_ascii=False\<close>); a float is written in decimal notation, which is what
  \<open>repr\<close> gives for a value of at most two decimals below \<open>10^16\<close>; \<open>None\<close> is
  \<open>null\<close>.
\<close>

definition dq :: char where
  "dq = CHR 0x22"

definition bs :: char where
  "bs = CHR 0x5C"

definition hexdigit :: "nat \<Rightarrow> char" where
  "hexdigit n = (if n < 10 then char_of (48 + n) else char_of (87 + n))"

definition escape_char :: "char \<Rightarrow> string" where
  "escape_char c =
     (if c = dq then [bs, dq]
      else if c = bs then [bs, bs]
      else if c = CHR 0x0A then [bs, CHR ''n'']
      else if c = CHR 0x0D then [bs, CHR ''r'']
      else if c = CHR 0x09 then [bs, CHR ''t'']
      else if c = CHR 0x08 then [bs, CHR ''b'']
      else if c = CHR 0x0C then [bs, CHR ''f'']
      else if (of_char c :: nat) < 32
        then [bs, CHR ''u'', CHR ''0'', CHR ''0'',
              hexdigit (of_char c div 16), hexdigit (of_char c mod 16)]
      else [c])"

definition encode_basestring :: "string \<Rightarrow> string" where
  "encode_basestring s = dq # concat (map escape_char s) @ [dq]"

definition float_repr :: "rat \<Rightarrow> string" where
  "float_repr x =
     (let c = \<lfloor>\<bar>x\<bar> * 100\<rfloor>; ip = nat (c div 100); fp = nat (c mod 100)
      in (if x < 0 then ''-'' else [])
         @ str_nat ip @ ''.''
         @ (if fp mod 10 = 0 then str_nat (fp div 10) else zfill 2 (str_nat fp)))"

fun dumps_cell :: "cell \<Rightarrow> string" where
  "dumps_cell CNone = ''null''"
| "dumps_cell (CStr s) = encode_basestring s"
| "dumps_cell (CFloat (Fin x)) = float_repr x"
| "dumps_cell (CFloat NaN) = ''NaN''"

fun join :: "string \<Rightarrow> string list \<Rightarrow> string" where
  "join sep [] = []"
| "join sep [x] = x"
| "join sep (x # y # ys) = x @ sep @ join sep (y # ys)"

text \<open>\<open>json.dumps(record, separators=(',', ':'))\<close> on one row.\<close>

definition dumps_compact :: "(string \<times> cell) list \<Rightarrow> string" where
  "dumps_compact record =
     ''{'' @ join '','' (map (\<lambda>(k, v). encode_basestring k @ '':'' @ dumps_cell v) record)
     @ ''}''"

text \<open>
  \<open>json.dump(..., indent=2)\<close>: every item of a dictionary on a line of its own, indented
  by two spaces for each level, the closing brace on its own line.
\<close>

definition newline_indent :: "nat \<Rightarrow> string" where
  "newline_indent level = CHR ''\<newline>'' # replicate (2 * level) (CHR '' '')"

definition dump_dict_indent :: "nat \<Rightarrow> (string \<times> string) list \<Rightarrow> string" where
  "dump_dict_indent level items =
     (if items = [] then ''{}''
      else ''{'' @ newline_indent (level + 1)
           @ join ('','' @ newline_indent (level + 1))
               (map (\<lambda>(k, v). encode_basestring k @ '': '' @ v) items)
           @ newline_indent level @ ''}'')"

fun dump_meta :: "nat \<Rightarrow> meta \<Rightarrow> string" where
  "dump_meta level (MStr s) = encode_basestring s"
| "dump_meta level (MDict d) =
     dump_dict_indent level (map (\<lambda>(k, v). (k, encode_basestring v)) d)"

definition dump_metadata :: "(string \<times> meta) list \<Rightarrow> string" where
  "dump_metadata m = dump_dict_indent 0 (map (\<lambda>(k, v). (k, dump_meta 1 v)) m)"

text \<open>
  The loop over \<open>enumerate(records)\<close>: \<open>i\<close> is the index of the next record and \<open>n\<close> is
  \<open>len(records)\<close>.
\<close>

fun escribir_registros :: "int \<Rightarrow> int \<Rightarrow> (string \<times> cell) list list \<Rightarrow> string" where
  "escribir_registros i n [] = []"
| "escribir_registros i n (record # rest) =
     ''    '' @ dumps_compact record
     @ (if i < n - 1 then '',\<newline>'' else ''\<newline>'')
     @ escribir_registros (i + 1) n rest"

definition escritura_hibrida ::
  "(string \<times> meta) list \<Rightarrow> (string \<times> cell) list list \<Rightarrow> string" where
  "escritura_hibrida metadatos records =
     ''{\<newline>  '' @ [dq] @ ''metadatos'' @ [dq] @ '': '' @ dump_metadata metadatos
     @ '',\<newline>  '' @ [dq] @ ''datos'' @ [dq] @ '': [\<newline>''
     @ escribir_registros 0 (int (length records)) records
     @ ''  ]\<newline>}\<newline>''"

text \<open>
  Grouping by region and reservoir, in ascending order of the key, and one row for each
  group.
\<close>

definition claves :: "raw_record list \<Rightarrow> (string \<times> string) list" where
  "claves df = sort (remdups (map (\<lambda>r. (AMBITO_NOMBRE r, EMBALSE_NOMBRE r)) df))"

definition df_agrupado :: "raw_record list \<Rightarrow> (string \<times> cell) list list" where
  "df_agrupado df =
     concat (map (\<lambda>(an, en).
        case calcular_estadisticas_embalse
               (filter (\<lambda>r. AMBITO_NOMBRE r = an \<and> EMBALSE_NOMBRE r = en) df)
        of None \<Rightarrow> [] | Some s \<Rightarrow> [fila an en s]) (claves df))"

text \<open>
  The layout of the output file in the words of the specification, line by line: a
  quoted word, a list of lines, and the lines of the records with a comma after each one
  but the last.
\<close>

definition quoted :: "string \<Rightarrow> string" where
  "quoted s = dq # s @ [dq]"

definition lineas :: "string list \<Rightarrow> string" where
  "lineas ls = concat (map (\<lambda>l. l @ ''\<newline>'') ls)"

definition lineas_registros :: "(string \<times> cell) list list \<Rightarrow> string list" where
  "lineas_registros records =
     map (\<lambda>r. ''    '' @ dumps_compact r @ '','') (butlast records)
     @ [''    '' @ dumps_compact (last records)]"

definition lineas_metadatos :: "string list" where
  "lineas_metadatos =
     [''  '' @ quoted ''metadatos'' @ '': {'',
      ''  '' @ quoted ''fuente'' @ '': '' @ quoted ''MITECO'' @ '','',
      ''  '' @ quoted ''mapeo'' @ '': {'',
      ''    '' @ quoted ''an'' @ '': '' @ quoted ''AMBITO_NOMBRE'' @ '','',
      ''    '' @ quoted ''en'' @ '': '' @ quoted ''EMBALSE_NOMBRE'' @ '','',
      ''    '' @ quoted ''at'' @ '': '' @ quoted ''AGUA_TOTAL'' @ '','',
      ''    '' @ quoted ''aa'' @ '': '' @ quoted ''AGUA_ACTUAL'' @ '','',
      ''    '' @ quoted ''f'' @ '': '' @ quoted ''FECHA_ULTIMO_DATO'' @ '','',
      ''    '' @ quoted ''m1s'' @ '': '' @ quoted ''Media_Ultima_Semana'' @ '','',
      ''    '' @ quoted ''m2s'' @ '': '' @ quoted ''Media_Ultimas_2_Semanas'' @ '','',
      ''    '' @ quoted ''m1m'' @ '': '' @ quoted ''Media_Ultimo_Mes'' @ '','',
      ''    '' @ quoted ''ma1'' @ '': '' @ quoted ''Media_Mismo_Mes_Anio_Anterior'' @ '','',
      ''    '' @ quoted ''h3a'' @ '': '' @ quoted ''Media_Historica_Mes_3_Anios'' @ '','',
      ''    '' @ quoted ''h5a'' @ '': '' @ quoted ''Media_Historica_Mes_5_Anios'' @ '','',
      ''    '' @ quoted ''h10a'' @ '': '' @ quoted ''Media_Historica_Mes_10_Anios'' @ '','',
      ''    '' @ quoted ''h20a'' @ '': '' @ quoted ''Media_Historica_Mes_20_Anios'' @ '','',
      ''    '' @ quoted ''ht'' @ '': '' @ quoted ''Media_Historica_Mes_Total'',
      ''  }'',
      ''},'']"

text \<open>
  A text has no whitespace between its JSON tokens when a scan that tracks string
  literals and their escapes meets no space, tab, newline or carriage return outside a
  literal and ends outside one.
\<close>

datatype scan_state = Outside | Inside | Escaped

definition is_ws :: "char \<Rightarrow> bool" where
  "is_ws c = (c = CHR '' '' \<or> c = CHR 0x09 \<or> c = CHR 0x0A \<or> c = CHR 0x0D)"

fun scan :: "scan_state \<Rightarrow> string \<Rightarrow> scan_state option" where
  "scan st [] = Some st"
| "scan Outside (c # cs) =
     (if is_ws c then None else if c = dq then scan Inside cs else scan Outside cs)"
| "scan Inside (c # cs) =
     (if c = bs then scan Escaped cs else if c = dq then scan Outside cs else scan Inside cs)"
| "scan Escaped (c # cs) = scan Inside cs"

definition dense :: "string \<Rightarrow> bool" where
  "dense s = (scan Outside s = Some Outside)"

section \<open>Example series\<close>

definition serie_ejemplo :: "raw_record list" where
  "serie_ejemplo =
     [\<lparr>AMBITO_NOMBRE = ''Tajo'', EMBALSE_NOMBRE = ''Buendia'',
       FECHA = \<lparr>d_year = 2024, d_month = 3, d_day = 5\<rparr>, AGUA_TOTAL = 1639, AGUA_ACTUAL = 25\<rparr>,
      \<lparr>AMBITO_NOMBRE = ''Tajo'', EMBALSE_NOMBRE = ''Buendia'',
       FECHA = \<lparr>d_year = 2024, d_month = 3, d_day = 15\<rparr>, AGUA_TOTAL = 1639, AGUA_ACTUAL = 20\<rparr>,
      \<lparr>AMBITO_NOMBRE = ''Tajo'', EMBALSE_NOMBRE = ''Buendia'',
       FECHA = \<lparr>d_year = 2024, d_month = 2, d_day = 4\<rparr>, AGUA_TOTAL = 1639, AGUA_ACTUAL = 30\<rparr>]"

definition registro :: "int \<Rightarrow> int \<Rightarrow> int \<Rightarrow> rat \<Rightarrow> raw_record" where
  "registro y m d v =
     \<lparr>AMBITO_NOMBRE = ''Tajo'', EMBALSE_NOMBRE = ''Buendia'',
      FECHA = \<lparr>d_year = y, d_month = m, d_day = d\<rparr>, AGUA_TOTAL = 1639, AGUA_ACTUAL = v\<rparr>"

definition serie_anio_anterior :: "raw_record list" where
  "serie_anio_anterior =
     [registro 2023 3 20 (1235 / 100), registro 2024 3 15 10,
      registro 2023 4 10 50, registro 2022 3 15 70]"

definition serie_limite :: "raw_record list" where
  "serie_limite =
     [registro 2021 3 14 40, registro 2021 3 15 30, registro 2024 3 15 10,
      registro 2021 3 16 20]"



section \<open>Facts about the calendar\<close>

lemma div_step:
  fixes y n :: int
  assumes "0 < n"
  shows "y div n = (y - 1) div n + (if y mod n = 0 then 1 else 0)"
proof (cases "y mod n = 0")
  case True
  have "y = n * (y div n) + y mod n" by simp
  then have "y - 1 = n * (y div n - 1) + (n - 1)"
    using True by (simp add: algebra_simps)
  then have "(y - 1) div n = y div n - 1"
    using assms by (intro int_div_pos_eq[where r = "n - 1"]) auto
  then show ?thesis using True by simp
next
  case False
  have nn: "0 \<le> y mod n" and lt: "y mod n < n" using assms by simp_all
  have pos: "0 \<le> y mod n - 1" using False nn by linarith
  have lt': "y mod n - 1 < n" using lt by linarith
  have "y - 1 = n * (y div n) + (y mod n - 1)"
    by (simp add: algebra_simps)
  then have "(y - 1) div n = y div n"
    using pos lt' by (rule int_div_pos_eq)
  then show ?thesis using False by simp
qed

lemma days_before_year_Suc:
  "days_before_year (y + 1) = days_before_year y + (if isleap y then 366 else 365)"
proof -
  have a: "y div 4 = (y - 1) div 4 + (if y mod 4 = 0 then 1 else 0)" by (rule div_step) simp
  have b: "y div 100 = (y - 1) div 100 + (if y mod 100 = 0 then 1 else 0)" by (rule div_step) simp
  have c: "y div 400 = (y - 1) div 400 + (if y mod 400 = 0 then 1 else 0)" by (rule div_step) simp
  have "(400::int) = 100 * 4" by simp
  then have "(100::int) dvd 400" by (metis dvd_triv_left)
  then have d: "y mod 400 = 0 \<Longrightarrow> y mod 100 = 0"
    by (meson dvd_trans mod_0_imp_dvd dvd_imp_mod_0)
  have "(100::int) = 4 * 25" by simp
  then have "(4::int) dvd 100" by (metis dvd_triv_left)
  then have e: "y mod 100 = 0 \<Longrightarrow> y mod 4 = 0"
    by (meson dvd_trans mod_0_imp_dvd dvd_imp_mod_0)
  have lin: "\<And>A A' B B' C C' i j k :: int.
      A = A' + i \<Longrightarrow> B = B' + j \<Longrightarrow> C = C' + k \<Longrightarrow>
      y * 365 + A - B + C = ((y - 1) * 365 + A' - B' + C') + (365 + i - j + k)"
    by (simp add: algebra_simps)
  have s1: "days_before_year (y + 1) = y * 365 + y div 4 - y div 100 + y div 400"
    by (simp add: days_before_year_def Let_def)
  have s0: "days_before_year y
      = (y - 1) * 365 + (y - 1) div 4 - (y - 1) div 100 + (y - 1) div 400"
    by (simp add: days_before_year_def Let_def)
  have eq: "days_before_year (y + 1) = days_before_year y
      + (365 + (if y mod 4 = 0 then 1 else 0) - (if y mod 100 = 0 then 1 else 0)
            + (if y mod 400 = 0 then 1 else 0))"
    unfolding s1 s0 by (rule lin[OF a b c])
  show ?thesis
  proof (cases "y mod 4 = 0")
    case F4: False
    then have "y mod 100 \<noteq> 0" "y mod 400 \<noteq> 0" using d e by auto
    then show ?thesis using eq F4 by (simp add: isleap_def)
  next
    case T4: True
    show ?thesis
    proof (cases "y mod 100 = 0")
      case False
      then have "y mod 400 \<noteq> 0" using d by auto
      then show ?thesis using eq T4 False by (simp add: isleap_def)
    next
      case True
      then show ?thesis using eq T4 by (simp add: isleap_def)
    qed
  qed
qed

lemma days_before_year_back:
  "0 \<le> k \<Longrightarrow> days_before_year (y - k) + 365 * k \<le> days_before_year y"
proof (induction k rule: int_ge_induct)
  case base
  then show ?case by simp
next
  case (step i)
  have "days_before_year ((y - (i + 1)) + 1) \<ge> days_before_year (y - (i + 1)) + 365"
    unfolding days_before_year_Suc by simp
  moreover have "(y - (i + 1)) + 1 = y - i" by simp
  ultimately have "days_before_year (y - (i + 1)) + 365 \<le> days_before_year (y - i)"
    by simp
  then show ?case using step by (simp add: algebra_simps)
qed

lemma days_before_year_mono:
  assumes "y1 < y2"
  shows "days_before_year (y1 + 1) \<le> days_before_year y2"
proof -
  have "0 \<le> y2 - (y1 + 1)" using assms by simp
  from days_before_year_back[OF this, of y2]
  have "days_before_year (y1 + 1) + 365 * (y2 - (y1 + 1)) \<le> days_before_year y2" by simp
  moreover have "0 \<le> 365 * (y2 - (y1 + 1))" using assms by simp
  ultimately show ?thesis by simp
qed

lemma days_before_month_leap_diff:
  "days_before_month y' m \<le> days_before_month y m + 1"
  unfolding days_before_month_def by simp

lemma days_before_month_nonneg: "0 \<le> days_before_month y m"
  unfolding days_before_month_def by simp

lemma days_before_month_next:
  "1 \<le> m \<Longrightarrow> m \<le> 11 \<Longrightarrow>
   days_before_month y (m + 1) = days_before_month y m + days_in_month y m"
  unfolding days_before_month_def days_in_month_def by (simp; presburger)

lemma days_before_month_mono:
  "m1 \<le> m2 \<Longrightarrow> days_before_month y m1 \<le> days_before_month y m2"
  unfolding days_before_month_def by (simp; presburger)

lemma year_length:
  "1 \<le> m \<Longrightarrow> m \<le> 12 \<Longrightarrow>
   days_before_month y m + days_in_month y m \<le> (if isleap y then 366 else 365)"
  unfolding days_before_month_def days_in_month_def by (simp; presburger)

lemma toordinal_lower:
  "valid_date d \<Longrightarrow> days_before_year (d_year d) < toordinal d"
  unfolding toordinal_def valid_date_def
  using days_before_month_nonneg[of "d_year d" "d_month d"] by simp

lemma toordinal_upper:
  assumes "valid_date d"
  shows "toordinal d \<le> days_before_year (d_year d + 1)"
proof -
  have "days_before_month (d_year d) (d_month d) + d_day d
        \<le> days_before_month (d_year d) (d_month d) + days_in_month (d_year d) (d_month d)"
    using assms by (simp add: valid_date_def)
  also have "\<dots> \<le> (if isleap (d_year d) then 366 else 365)"
    using assms by (intro year_length) (simp_all add: valid_date_def)
  finally show ?thesis
    unfolding toordinal_def days_before_year_Suc by simp
qed

lemma toordinal_year_less:
  assumes "valid_date a" "valid_date b" "d_year a < d_year b"
  shows "toordinal a < toordinal b"
proof -
  have "toordinal a \<le> days_before_year (d_year a + 1)"
    using assms(1) by (rule toordinal_upper)
  also have "\<dots> \<le> days_before_year (d_year b)"
    using assms(3) by (rule days_before_year_mono)
  also have "\<dots> < toordinal b"
    using assms(2) by (rule toordinal_lower)
  finally show ?thesis .
qed

lemma toordinal_month_less:
  assumes "valid_date a" "valid_date b" "d_year a = d_year b" "d_month a < d_month b"
  shows "toordinal a < toordinal b"
proof -
  let ?y = "d_year b"
  have ma: "1 \<le> d_month a" "d_month a \<le> 11"
    using assms by (simp_all add: valid_date_def)
  have "days_before_month ?y (d_month a) + d_day a
        \<le> days_before_month ?y (d_month a) + days_in_month ?y (d_month a)"
    using assms(1,3) by (simp add: valid_date_def)
  also have "\<dots> = days_before_month ?y (d_month a + 1)"
    using ma by (simp add: days_before_month_next)
  also have "\<dots> \<le> days_before_month ?y (d_month b)"
    using assms(4) by (intro days_before_month_mono) simp
  also have "\<dots> < days_before_month ?y (d_month b) + d_day b"
    using assms(2) by (simp add: valid_date_def)
  finally show ?thesis
    unfolding toordinal_def using assms(3) by simp
qed

lemma toordinal_inj:
  assumes "valid_date a" "valid_date b" "toordinal a = toordinal b"
  shows "a = b"
proof -
  have y: "d_year a = d_year b"
    using toordinal_year_less[OF assms(1,2)] toordinal_year_less[OF assms(2,1)] assms(3)
    by (cases "d_year a < d_year b"; cases "d_year b < d_year a"; simp)
  have m: "d_month a = d_month b"
    using toordinal_month_less[OF assms(1,2) y] toordinal_month_less[OF assms(2,1) y[symmetric]]
      assms(3)
    by (cases "d_month a < d_month b"; cases "d_month b < d_month a"; simp)
  have "d_day a = d_day b"
    using assms(3) y m by (simp add: toordinal_def)
  then show ?thesis using y m by simp
qed

lemma relativedelta_sub_years:
  assumes "1 \<le> d_month d" "d_month d \<le> 12"
  shows "relativedelta_sub d k 0 =
         \<lparr>d_year = d_year d - k, d_month = d_month d,
          d_day = min (days_in_month (d_year d - k) (d_month d)) (d_day d)\<rparr>"
  using assms by (simp add: relativedelta_sub_def relativedelta_add_def Let_def)

lemma toordinal_sub_years_le:
  assumes "valid_date d" "0 \<le> k"
  shows "toordinal (relativedelta_sub d k 0) \<le> toordinal d"
proof (cases "k = 0")
  case True
  have "relativedelta_sub d 0 0 = \<lparr>d_year = d_year d, d_month = d_month d,
      d_day = min (days_in_month (d_year d) (d_month d)) (d_day d)\<rparr>"
    using assms(1) by (simp add: relativedelta_sub_years valid_date_def)
  then show ?thesis using True by (simp add: toordinal_def)
next
  case False
  then have k1: "0 \<le> k - 1" using assms(2) by simp
  let ?y = "d_year d"
  have "days_before_year ((?y - 1) - (k - 1)) + 365 * (k - 1) \<le> days_before_year (?y - 1)"
    using k1 by (rule days_before_year_back)
  then have a: "days_before_year (?y - k) \<le> days_before_year (?y - 1)"
    using k1 by simp
  have "days_before_year ((?y - 1) + 1) \<ge> days_before_year (?y - 1) + 365"
    unfolding days_before_year_Suc by simp
  then have b: "days_before_year (?y - 1) + 365 \<le> days_before_year ?y" by simp
  have c: "days_before_month (?y - k) (d_month d) \<le> days_before_month ?y (d_month d) + 1"
    by (rule days_before_month_leap_diff)
  have e: "min (days_in_month (?y - k) (d_month d)) (d_day d) \<le> d_day d" by simp
  have "toordinal (relativedelta_sub d k 0)
        = days_before_year (?y - k) + days_before_month (?y - k) (d_month d)
          + min (days_in_month (?y - k) (d_month d)) (d_day d)"
    using assms(1) by (simp add: relativedelta_sub_years valid_date_def toordinal_def)
  also have "\<dots> \<le> days_before_year ?y + days_before_month ?y (d_month d) + d_day d"
    using a b c e by linarith
  finally show ?thesis by (simp add: toordinal_def)
qed

lemma anio_ant_fin_fields:
  assumes "valid_date d"
  shows "relativedelta_add (relativedelta_sub d 1 0) 0 1 =
     (if d_month d = 12
      then \<lparr>d_year = d_year d, d_month = 1,
            d_day = min 31 (min (days_in_month (d_year d - 1) 12) (d_day d))\<rparr>
      else \<lparr>d_year = d_year d - 1, d_month = d_month d + 1,
            d_day = min (days_in_month (d_year d - 1) (d_month d + 1))
                        (min (days_in_month (d_year d - 1) (d_month d)) (d_day d))\<rparr>)"
proof -
  have m: "1 \<le> d_month d" "d_month d \<le> 12"
    using assms by (simp_all add: valid_date_def)
  have jan: "\<And>y. days_in_month y 1 = 31" by (simp add: days_in_month_def)
  show ?thesis
  proof (cases "d_month d = 12")
    case True
    then show ?thesis
      unfolding relativedelta_sub_years[OF m] relativedelta_add_def Let_def
      by (simp add: jan)
  next
    case False
    then have "d_month d + 1 \<le> 12" "\<not> d_month d + 1 < 1" using m by simp_all
    then show ?thesis
      unfolding relativedelta_sub_years[OF m] relativedelta_add_def Let_def
      using False by simp
  qed
qed

lemma toordinal_anio_ant_fin_less:
  assumes "valid_date d"
  shows "toordinal (relativedelta_add (relativedelta_sub d 1 0) 0 1) < toordinal d"
proof (cases "d_month d = 12")
  case True
  let ?y = "d_year d"
  have "toordinal (relativedelta_add (relativedelta_sub d 1 0) 0 1)
        = days_before_year ?y + days_before_month ?y 1
          + min 31 (min (days_in_month (?y - 1) 12) (d_day d))"
    using True assms by (simp add: anio_ant_fin_fields toordinal_def)
  also have "\<dots> \<le> days_before_year ?y + 31"
    by (simp add: days_before_month_def)
  also have "\<dots> < days_before_year ?y + days_before_month ?y 12 + d_day d"
    using assms by (simp add: days_before_month_def valid_date_def)
  finally show ?thesis using True by (simp add: toordinal_def)
next
  case False
  let ?y = "d_year d" and ?m = "d_month d"
  have m: "1 \<le> ?m + 1" "?m + 1 \<le> 12"
    using False assms by (simp_all add: valid_date_def)
  let ?dd = "min (days_in_month (?y - 1) (?m + 1)) (min (days_in_month (?y - 1) ?m) (d_day d))"
  have "toordinal (relativedelta_add (relativedelta_sub d 1 0) 0 1)
        = days_before_year (?y - 1) + days_before_month (?y - 1) (?m + 1) + ?dd"
    using False assms by (simp add: anio_ant_fin_fields toordinal_def)
  also have "\<dots> \<le> days_before_year (?y - 1)
        + (days_before_month (?y - 1) (?m + 1) + days_in_month (?y - 1) (?m + 1))"
    by simp
  also have "\<dots> \<le> days_before_year (?y - 1) + (if isleap (?y - 1) then 366 else 365)"
    using year_length[OF m, of "?y - 1"] by simp
  also have "\<dots> = days_before_year ((?y - 1) + 1)"
    by (simp only: days_before_year_Suc)
  also have "\<dots> = days_before_year ?y" by simp
  also have "\<dots> < toordinal d" using assms by (rule toordinal_lower)
  finally show ?thesis .
qed

lemma sort_values_desc_head:
  assumes "sort_values_desc df = r0 # rest"
  shows "r0 \<in> set df"
    and "\<forall>r\<in>set df. toordinal (FECHA r) \<le> toordinal (FECHA r0)"
proof -
  have s: "set (r0 # rest) = set df"
    using assms by (metis set_sort sort_values_desc_def)
  then show "r0 \<in> set df" by auto
  have "sorted (map (\<lambda>r. - toordinal (FECHA r)) (r0 # rest))"
    using assms by (metis sorted_sort_key sort_values_desc_def)
  then have "\<forall>r\<in>set rest. - toordinal (FECHA r0) \<le> - toordinal (FECHA r)"
    by simp
  then have "\<forall>r\<in>set (r0 # rest). toordinal (FECHA r) \<le> toordinal (FECHA r0)"
    by simp
  then show "\<forall>r\<in>set df. toordinal (FECHA r) \<le> toordinal (FECHA r0)"
    unfolding s .
qed

lemma sort_values_desc_nonempty:
  assumes "df \<noteq> []"
  obtains r0 rest where "sort_values_desc df = r0 # rest"
proof -
  have "length (sort_values_desc df) = length df"
    by (simp add: sort_values_desc_def)
  then have "sort_values_desc df \<noteq> []" using assms by auto
  then show ?thesis using that by (cases "sort_values_desc df") auto
qed

lemma mset_sort_values_desc: "mset (sort_values_desc df) = mset df"
  by (simp add: sort_values_desc_def)

lemma mean_mset:
  assumes "mset xs = mset ys"
  shows "mean xs = mean ys"
proof -
  have "sum_list xs = sum_list ys"
    using assms by (metis sum_mset_sum_list)
  moreover have "length xs = length ys"
    using assms by (rule mset_eq_length)
  moreover have "(xs = []) = (ys = [])"
    using \<open>length xs = length ys\<close> by auto
  ultimately show ?thesis by (simp add: mean_def)
qed

lemma mean_filter_perm:
  assumes "mset xs = mset ys"
  shows "mean (map g (filter P xs)) = mean (map g (filter P ys))"
proof -
  have "mset (map g (filter P xs)) = mset (map g (filter P ys))"
    using assms by (metis mset_filter mset_map)
  then show ?thesis by (rule mean_mset)
qed

lemma filter_perm_empty:
  assumes "mset xs = mset ys"
  shows "(filter P xs = []) = (filter P ys = [])"
proof -
  have "set xs = set ys" using assms by (rule mset_eq_setD)
  then show ?thesis by (simp add: filter_empty_conv)
qed

section \<open>Facts about the statistics of one reservoir\<close>

lemma calcular_fields:
  assumes "sort_values_desc df = r0 # rest"
  shows "calcular_estadisticas_embalse df = Some \<lparr>
      k_aa = py_round2 (Fin (AGUA_ACTUAL r0)),
      k_at = py_round2 (Fin (AGUA_TOTAL r0)),
      k_f = FECHA r0,
      k_m1s = py_round2 (mean (map AGUA_ACTUAL (df_dias (sort_values_desc df) (FECHA r0) 7))),
      k_m2s = py_round2 (mean (map AGUA_ACTUAL (df_dias (sort_values_desc df) (FECHA r0) 14))),
      k_m1m = py_round2 (mean (map AGUA_ACTUAL (df_dias (sort_values_desc df) (FECHA r0) 30))),
      k_ma1 = (if df_anio_ant (sort_values_desc df) (FECHA r0) \<noteq> []
               then Some (py_round2 (mean (map AGUA_ACTUAL
                      (df_anio_ant (sort_values_desc df) (FECHA r0)))))
               else None),
      k_h3a = py_round2 (media_historica
                (df_hist_mes (sort_values_desc df) (d_month (FECHA r0))) (FECHA r0) 3),
      k_h5a = py_round2 (media_historica
                (df_hist_mes (sort_values_desc df) (d_month (FECHA r0))) (FECHA r0) 5),
      k_h10a = py_round2 (media_historica
                (df_hist_mes (sort_values_desc df) (d_month (FECHA r0))) (FECHA r0) 10),
      k_h20a = py_round2 (media_historica
                (df_hist_mes (sort_values_desc df) (d_month (FECHA r0))) (FECHA r0) 20),
      k_ht = py_round2 (mean (map AGUA_ACTUAL
                (df_hist_mes (sort_values_desc df) (d_month (FECHA r0)))))\<rparr>"
  unfolding calcular_estadisticas_embalse_def assms by (simp add: Let_def)

lemma mean_df_dias_sorted:
  "mean (map AGUA_ACTUAL (df_dias (sort_values_desc df) ref n))
   = mean (map AGUA_ACTUAL (df_dias df ref n))"
  unfolding df_dias_def by (rule mean_filter_perm) (rule mset_sort_values_desc)

lemma reference_ordinal:
  assumes "sort_values_desc df = r0 # rest" "is_reference_date df ref"
  shows "toordinal ref = toordinal (FECHA r0)"
proof -
  have "toordinal (FECHA r0) \<le> toordinal ref"
    using sort_values_desc_head(1)[OF assms(1)] assms(2)
    by (simp add: is_reference_date_def)
  moreover have "toordinal ref \<le> toordinal (FECHA r0)"
    using sort_values_desc_head(2)[OF assms(1)] assms(2)
    by (auto simp: is_reference_date_def)
  ultimately show ?thesis by simp
qed

lemma is_reference_date_head:
  assumes "sort_values_desc df = r0 # rest"
  shows "is_reference_date df (FECHA r0)"
  using sort_values_desc_head[OF assms] by (simp add: is_reference_date_def)

lemma df_dias_rolling_window:
  assumes "sort_values_desc df = r0 # rest" "is_reference_date df ref"
  shows "df_dias df (FECHA r0) n = rolling_window df ref n"
  unfolding df_dias_def rolling_window_def
proof (rule filter_cong[OF refl])
  fix r assume "r \<in> set df"
  then have "toordinal (FECHA r) \<le> toordinal ref"
    using assms(2) by (simp add: is_reference_date_def)
  then show "(toordinal (FECHA r0) - n \<le> toordinal (FECHA r))
      = (toordinal ref - n \<le> toordinal (FECHA r) \<and> toordinal (FECHA r) \<le> toordinal ref)"
    using reference_ordinal[OF assms] by simp
qed

lemma rolling_window_nonempty:
  assumes "is_reference_date df ref" "0 \<le> n"
  shows "rolling_window df ref n \<noteq> []"
proof -
  obtain r where r: "r \<in> set df" "FECHA r = ref"
    using assms(1) by (auto simp: is_reference_date_def)
  then have "r \<in> set (rolling_window df ref n)"
    using assms(2) by (simp add: rolling_window_def)
  then show ?thesis by auto
qed

lemma mean_nonempty:
  "xs \<noteq> [] \<Longrightarrow> mean (map g xs) = Fin (arithmetic_mean (map g xs))"
  by (simp add: mean_def arithmetic_mean_def)

lemma rolling_field:
  assumes "sort_values_desc df = r0 # rest" "is_reference_date df ref" "0 \<le> n"
  shows "py_round2 (mean (map AGUA_ACTUAL (df_dias (sort_values_desc df) (FECHA r0) n)))
         = Fin (round2 (arithmetic_mean (map AGUA_ACTUAL (rolling_window df ref n))))"
  unfolding mean_df_dias_sorted df_dias_rolling_window[OF assms(1,2)]
  using rolling_window_nonempty[OF assms(2,3)] by (simp add: mean_nonempty)

section \<open>Rolling means\<close>



lemma days_in_month_pos: "1 \<le> days_in_month y m"
  by (simp add: days_in_month_def)

lemma valid_relativedelta_add:
  assumes "valid_date d" "- 12 \<le> mths" "mths \<le> 12"
  shows "valid_date (relativedelta_add d yrs mths)"
proof -
  have m: "1 \<le> d_month d" "d_month d \<le> 12" and dd: "1 \<le> d_day d"
    using assms(1) by (simp_all add: valid_date_def)
  show ?thesis
    unfolding relativedelta_add_def Let_def valid_date_def
    using m dd assms(2,3) days_in_month_pos by simp
qed

lemma valid_relativedelta_sub:
  assumes "valid_date d" "- 12 \<le> mths" "mths \<le> 12"
  shows "valid_date (relativedelta_sub d yrs mths)"
  unfolding relativedelta_sub_def using assms by (intro valid_relativedelta_add) simp_all

lemma relativedelta_add_year_month:
  assumes "1 \<le> d_month d" "d_month d \<le> 12"
  shows "d_year (relativedelta_add d yrs mths) =
           (if d_month d + mths > 12 then d_year d + yrs + 1
            else if d_month d + mths < 1 then d_year d + yrs - 1 else d_year d + yrs)"
    and "d_month (relativedelta_add d yrs mths) =
           (if d_month d + mths > 12 then d_month d + mths - 12
            else if d_month d + mths < 1 then d_month d + mths + 12 else d_month d + mths)"
  by (simp_all add: relativedelta_add_def Let_def)

lemma toordinal_lex_less:
  assumes "valid_date a" "valid_date b"
    and "d_year a < d_year b \<or> (d_year a = d_year b \<and> d_month a < d_month b)"
  shows "toordinal a < toordinal b"
  using assms toordinal_year_less toordinal_month_less by blast

lemma lower_bound_same_side:
  assumes "valid_date a" "valid_date b" "valid_date x"
    and "d_year a = d_year b" "d_month a = d_month b" "d_month x \<noteq> d_month a"
  shows "(toordinal a < toordinal x) = (toordinal b < toordinal x)"
proof (cases "d_year a < d_year x \<or> (d_year a = d_year x \<and> d_month a < d_month x)")
  case True
  then have "toordinal a < toordinal x"
    using assms(1,3) by (intro toordinal_lex_less) simp_all
  moreover have "toordinal b < toordinal x"
    using True assms(2,3,4,5) by (intro toordinal_lex_less) simp_all
  ultimately show ?thesis by simp
next
  case False
  then have lt: "d_year x < d_year a \<or> (d_year x = d_year a \<and> d_month x < d_month a)"
    using assms(6) by linarith
  then have "toordinal x < toordinal a"
    using assms(1,3) by (intro toordinal_lex_less) simp_all
  moreover have "toordinal x < toordinal b"
    using lt assms(2,3,4,5) by (intro toordinal_lex_less) simp_all
  ultimately show ?thesis by simp
qed

lemma anio_ant_inicio_equiv:
  assumes "valid_date ref" "valid_date x" "d_month x = d_month ref"
  shows "(toordinal (relativedelta_sub ref 1 1) < toordinal x)
       = (toordinal (relativedelta_sub (relativedelta_sub ref 1 0) 0 1) < toordinal x)"
proof -
  let ?a = "relativedelta_sub ref 1 1"
  let ?ya = "relativedelta_sub ref 1 0"
  let ?b = "relativedelta_sub ?ya 0 1"
  have m: "1 \<le> d_month ref" "d_month ref \<le> 12"
    using assms(1) by (simp_all add: valid_date_def)
  have vya: "valid_date ?ya" using assms(1) by (rule valid_relativedelta_sub) simp_all
  have va: "valid_date ?a" using assms(1) by (rule valid_relativedelta_sub) simp_all
  have vb: "valid_date ?b" using vya by (rule valid_relativedelta_sub) simp_all
  have ya: "d_year ?ya = d_year ref - 1" "d_month ?ya = d_month ref"
    using m by (simp_all add: relativedelta_sub_def relativedelta_add_year_month)
  have mya: "1 \<le> d_month ?ya" "d_month ?ya \<le> 12" using ya m by simp_all
  have a: "d_year ?a = (if d_month ref = 1 then d_year ref - 2 else d_year ref - 1)"
      "d_month ?a = (if d_month ref = 1 then 12 else d_month ref - 1)"
    using m by (simp_all add: relativedelta_sub_def relativedelta_add_year_month)
  have b: "d_year ?b = (if d_month ref = 1 then d_year ref - 2 else d_year ref - 1)"
      "d_month ?b = (if d_month ref = 1 then 12 else d_month ref - 1)"
    unfolding relativedelta_sub_def[of ?ya] relativedelta_add_year_month[OF mya] ya
    using m by simp_all
  have ne: "d_month x \<noteq> d_month ?a" using a(2) assms(3) m by simp
  show ?thesis
    using va vb assms(2) _ _ ne by (rule lower_bound_same_side) (simp_all add: a b)
qed

lemma round_mean_cases:
  "py_round2 (mean (map g xs))
   = (if xs = [] then NaN else Fin (round2 (arithmetic_mean (map g xs))))"
  by (simp add: mean_def arithmetic_mean_def)

lemma reference_date_unique:
  assumes "sort_values_desc df = r0 # rest" "is_reference_date df ref"
    and "\<forall>r\<in>set df. valid_date (FECHA r)"
  shows "ref = FECHA r0"
proof -
  have "valid_date ref" using assms(2,3) by (auto simp: is_reference_date_def)
  moreover have "valid_date (FECHA r0)"
    using sort_values_desc_head(1)[OF assms(1)] assms(3) by simp
  ultimately show ?thesis
    using reference_ordinal[OF assms(1,2)] by (rule toordinal_inj)
qed

lemma mean_hist_mes_sorted:
  "mean (map AGUA_ACTUAL (df_hist_mes (sort_values_desc df) (d_month ref)))
   = mean (map AGUA_ACTUAL (month_cohort df ref))"
  unfolding df_hist_mes_def month_cohort_def
  by (rule mean_filter_perm) (rule mset_sort_values_desc)

lemma hist_mes_empty_sorted:
  "(df_hist_mes (sort_values_desc df) (d_month ref) = []) = (month_cohort df ref = [])"
  unfolding df_hist_mes_def month_cohort_def
  by (rule filter_perm_empty) (rule mset_sort_values_desc)

lemma df_historica_as_filter:
  "df_historica (df_hist_mes df (d_month ref)) ref k
   = filter (\<lambda>r. d_month (FECHA r) = d_month ref
                \<and> toordinal (relativedelta_sub ref k 0) \<le> toordinal (FECHA r)) df"
  by (simp add: df_historica_def df_hist_mes_def Let_def conj_commute)

lemma hist_window_as_filter:
  "hist_window df ref k
   = filter (\<lambda>r. d_month (FECHA r) = d_month ref
                \<and> toordinal (relativedelta_sub ref k 0) \<le> toordinal (FECHA r)) df"
  by (simp add: hist_window_def month_cohort_def conj_commute)

lemma media_historica_sorted:
  "media_historica (df_hist_mes (sort_values_desc df) (d_month ref)) ref k
   = mean (map AGUA_ACTUAL (hist_window df ref k))"
  unfolding media_historica_def df_historica_as_filter hist_window_as_filter
  by (rule mean_filter_perm) (rule mset_sort_values_desc)

lemma hist_window_nonempty:
  assumes "is_reference_date df ref" "valid_date ref" "0 \<le> k"
  shows "hist_window df ref k \<noteq> []"
proof -
  obtain r where r: "r \<in> set df" "FECHA r = ref"
    using assms(1) by (auto simp: is_reference_date_def)
  have "toordinal (relativedelta_sub ref k 0) \<le> toordinal ref"
    using assms(2,3) by (rule toordinal_sub_years_le)
  then have "r \<in> set (hist_window df ref k)"
    using r by (simp add: hist_window_as_filter)
  then show ?thesis by auto
qed

lemma month_cohort_nonempty:
  assumes "is_reference_date df ref"
  shows "month_cohort df ref \<noteq> []"
proof -
  obtain r where r: "r \<in> set df" "FECHA r = ref"
    using assms(1) by (auto simp: is_reference_date_def)
  then have "r \<in> set (month_cohort df ref)" by (simp add: month_cohort_def)
  then show ?thesis by auto
qed

lemma df_anio_ant_prior_year_window:
  assumes "\<forall>r\<in>set df. valid_date (FECHA r)" "valid_date ref"
  shows "df_anio_ant df ref = prior_year_window df ref"
  unfolding df_anio_ant_def prior_year_window_def Let_def
proof (rule filter_cong[OF refl])
  fix r assume r: "r \<in> set df"
  then have v: "valid_date (FECHA r)" using assms(1) by simp
  show "(toordinal (relativedelta_sub ref 1 1) < toordinal (FECHA r)
          \<and> toordinal (FECHA r) \<le> toordinal (relativedelta_add (relativedelta_sub ref 1 0) 0 1)
          \<and> d_month (FECHA r) = d_month ref)
      = (toordinal (relativedelta_sub (relativedelta_sub ref 1 0) 0 1) < toordinal (FECHA r)
          \<and> toordinal (FECHA r) \<le> toordinal (relativedelta_add (relativedelta_sub ref 1 0) 0 1)
          \<and> d_month (FECHA r) = d_month ref)"
    using anio_ant_inicio_equiv[OF assms(2) v] by blast
qed

lemma mean_df_anio_ant_sorted:
  "mean (map AGUA_ACTUAL (df_anio_ant (sort_values_desc df) ref))
   = mean (map AGUA_ACTUAL (df_anio_ant df ref))"
  unfolding df_anio_ant_def Let_def
  by (rule mean_filter_perm) (rule mset_sort_values_desc)

lemma df_anio_ant_empty_sorted:
  "(df_anio_ant (sort_values_desc df) ref = []) = (df_anio_ant df ref = [])"
  unfolding df_anio_ant_def Let_def
  by (rule filter_perm_empty) (rule mset_sort_values_desc)

lemma ma1_field:
  assumes "\<forall>r\<in>set df. valid_date (FECHA r)" "valid_date ref"
  shows "(if df_anio_ant (sort_values_desc df) ref \<noteq> []
          then Some (py_round2 (mean (map AGUA_ACTUAL (df_anio_ant (sort_values_desc df) ref))))
          else None)
       = (if prior_year_window df ref = [] then None
          else Some (Fin (round2 (arithmetic_mean (map AGUA_ACTUAL (prior_year_window df ref))))))"
  unfolding mean_df_anio_ant_sorted df_anio_ant_empty_sorted
    df_anio_ant_prior_year_window[OF assms]
  by (simp add: round_mean_cases)

lemma prior_year_window_excludes_reference:
  assumes "valid_date ref" "r \<in> set (prior_year_window df ref)"
  shows "toordinal (FECHA r) < toordinal ref"
proof -
  have "toordinal (FECHA r) \<le> toordinal (relativedelta_add (relativedelta_sub ref 1 0) 0 1)"
    using assms(2) by (simp add: prior_year_window_def Let_def)
  also have "\<dots> < toordinal ref"
    using assms(1) by (rule toordinal_anio_ant_fin_less)
  finally show ?thesis .
qed

section \<open>Same month of the prior year\<close>

text \<open>
  Claim C3. For a non-empty series, ma1 is the mean of AGUA_ACTUAL, rounded to two
  decimals, over exactly the records dated strictly after the reference date minus one
  year minus one month, at or before the reference date minus one year plus one month,
  and in the calendar month of the reference date; it is null when there is no such
  record. The code takes the lower bound in one calendar step and the window of the
  specification takes it in two; within the month of the reference date they select the
  same records.
\<close>

theorem ma1_prior_year_window:
  assumes "rs \<noteq> []" "\<forall>r\<in>set rs. valid_date (FECHA r)"
  shows "\<exists>s. calcular_estadisticas_embalse rs = Some s
     \<and> (\<exists>ref. is_reference_date rs ref)
     \<and> (\<forall>ref. is_reference_date rs ref \<longrightarrow>
          k_ma1 s = (if prior_year_window rs ref = [] then None
                     else Some (Fin (round2 (arithmetic_mean
                            (map AGUA_ACTUAL (prior_year_window rs ref)))))))"
proof -
  obtain r0 rest where srt: "sort_values_desc rs = r0 # rest"
    using assms(1) by (rule sort_values_desc_nonempty)
  have ex: "\<exists>ref. is_reference_date rs ref"
    using is_reference_date_head[OF srt] by blast
  have v0: "valid_date (FECHA r0)"
    using sort_values_desc_head(1)[OF srt] assms(2) by simp
  have uniq: "\<And>ref. is_reference_date rs ref \<Longrightarrow> ref = FECHA r0"
    using reference_date_unique[OF srt _ assms(2)] by blast
  show ?thesis
    unfolding calcular_fields[OF srt]
    using ex uniq ma1_field[OF assms(2) v0] by auto
qed

theorem ma1_prior_year_window_witness:
  "serie_anio_anterior \<noteq> [] \<and> list_all (\<lambda>r. valid_date (FECHA r)) serie_anio_anterior
   \<and> (\<exists>s. calcular_estadisticas_embalse serie_anio_anterior = Some s
          \<and> k_ma1 s = Some (Fin (247 / 20)))"
proof -
  let ?ref = "\<lparr>d_year = 2024, d_month = 3, d_day = 15\<rparr>"
  have ne: "serie_anio_anterior \<noteq> []" by code_simp
  have val: "\<forall>r\<in>set serie_anio_anterior. valid_date (FECHA r)" by code_simp
  have ref: "is_reference_date serie_anio_anterior ?ref" by code_simp
  have w: "prior_year_window serie_anio_anterior ?ref \<noteq> []" by code_simp
  have r: "round2 (arithmetic_mean (map AGUA_ACTUAL (prior_year_window serie_anio_anterior ?ref)))
           = 247 / 20"
    by code_simp
  obtain s where s: "calcular_estadisticas_embalse serie_anio_anterior = Some s"
    and f: "\<forall>ref. is_reference_date serie_anio_anterior ref \<longrightarrow>
          k_ma1 s = (if prior_year_window serie_anio_anterior ref = [] then None
                     else Some (Fin (round2 (arithmetic_mean
                            (map AGUA_ACTUAL (prior_year_window serie_anio_anterior ref))))))"
    using ma1_prior_year_window[OF ne val] by blast
  have "k_ma1 s = Some (Fin (247 / 20))"
    using f[rule_format, OF ref] w r by simp
  then show ?thesis using ne val[folded list_all_iff] s by blast
qed

lemma hist_field:
  "py_round2 (media_historica (df_hist_mes (sort_values_desc df) (d_month ref)) ref k)
   = (if hist_window df ref k = [] then NaN
      else Fin (round2 (arithmetic_mean (map AGUA_ACTUAL (hist_window df ref k)))))"
  unfolding media_historica_sorted by (rule round_mean_cases)

lemma hist_field_nonempty:
  assumes "is_reference_date df ref" "valid_date ref" "0 \<le> k"
  shows "py_round2 (media_historica (df_hist_mes (sort_values_desc df) (d_month ref)) ref k)
   = Fin (round2 (arithmetic_mean (map AGUA_ACTUAL (hist_window df ref k))))"
  unfolding hist_field using hist_window_nonempty[OF assms] by simp

section \<open>Calendar-year windows\<close>

text \<open>
  Claim C2, as the code has it. For a non-empty series and K among 3, 5, 10 and 20, the
  field of K years is the rounded mean over the records of the month cohort dated at or
  after the reference date minus K calendar years. A cohort record dated K years minus
  one day before the reference date is in that window, a cohort record dated exactly K
  years before the reference date is in it too, and a cohort record dated earlier is not.
\<close>

theorem hist_window_boundary_inclusive:
  assumes "rs \<noteq> []" "\<forall>r\<in>set rs. valid_date (FECHA r)"
  shows "\<exists>s. calcular_estadisticas_embalse rs = Some s
     \<and> (\<forall>ref. is_reference_date rs ref \<longrightarrow>
          k_h3a s = Fin (round2 (arithmetic_mean (map AGUA_ACTUAL (hist_window rs ref 3))))
        \<and> k_h5a s = Fin (round2 (arithmetic_mean (map AGUA_ACTUAL (hist_window rs ref 5))))
        \<and> k_h10a s = Fin (round2 (arithmetic_mean (map AGUA_ACTUAL (hist_window rs ref 10))))
        \<and> k_h20a s = Fin (round2 (arithmetic_mean (map AGUA_ACTUAL (hist_window rs ref 20))))
        \<and> (\<forall>k\<in>{3, 5, 10, 20}. \<forall>r\<in>set (month_cohort rs ref).
              (toordinal (FECHA r) = toordinal (relativedelta_sub ref k 0) + 1
                 \<longrightarrow> r \<in> set (hist_window rs ref k))
            \<and> (FECHA r = relativedelta_sub ref k 0 \<longrightarrow> r \<in> set (hist_window rs ref k))
            \<and> (toordinal (FECHA r) < toordinal (relativedelta_sub ref k 0)
                 \<longrightarrow> r \<notin> set (hist_window rs ref k))))"
proof -
  obtain r0 rest where srt: "sort_values_desc rs = r0 # rest"
    using assms(1) by (rule sort_values_desc_nonempty)
  have v0: "valid_date (FECHA r0)"
    using sort_values_desc_head(1)[OF srt] assms(2) by simp
  have r0: "is_reference_date rs (FECHA r0)" using srt by (rule is_reference_date_head)
  have uniq: "\<And>ref. is_reference_date rs ref \<Longrightarrow> ref = FECHA r0"
    using reference_date_unique[OF srt _ assms(2)] by blast
  have mem: "\<And>ref k r. r \<in> set (month_cohort rs ref) \<Longrightarrow>
      (r \<in> set (hist_window rs ref k))
      = (toordinal (relativedelta_sub ref k 0) \<le> toordinal (FECHA r))"
    by (simp add: hist_window_def)
  have bounds: "\<forall>k\<in>{3, 5, 10, 20}. \<forall>r\<in>set (month_cohort rs (FECHA r0)).
              (toordinal (FECHA r) = toordinal (relativedelta_sub (FECHA r0) k 0) + 1
                 \<longrightarrow> r \<in> set (hist_window rs (FECHA r0) k))
            \<and> (FECHA r = relativedelta_sub (FECHA r0) k 0
                 \<longrightarrow> r \<in> set (hist_window rs (FECHA r0) k))
            \<and> (toordinal (FECHA r) < toordinal (relativedelta_sub (FECHA r0) k 0)
                 \<longrightarrow> r \<notin> set (hist_window rs (FECHA r0) k))"
    using mem by auto
  have flds: "py_round2 (media_historica (df_hist_mes (sort_values_desc rs) (d_month (FECHA r0))) (FECHA r0) 3)
        = Fin (round2 (arithmetic_mean (map AGUA_ACTUAL (hist_window rs (FECHA r0) 3))))"
    "py_round2 (media_historica (df_hist_mes (sort_values_desc rs) (d_month (FECHA r0))) (FECHA r0) 5)
        = Fin (round2 (arithmetic_mean (map AGUA_ACTUAL (hist_window rs (FECHA r0) 5))))"
    "py_round2 (media_historica (df_hist_mes (sort_values_desc rs) (d_month (FECHA r0))) (FECHA r0) 10)
        = Fin (round2 (arithmetic_mean (map AGUA_ACTUAL (hist_window rs (FECHA r0) 10))))"
    "py_round2 (media_historica (df_hist_mes (sort_values_desc rs) (d_month (FECHA r0))) (FECHA r0) 20)
        = Fin (round2 (arithmetic_mean (map AGUA_ACTUAL (hist_window rs (FECHA r0) 20))))"
    by (simp_all add: hist_field_nonempty[OF r0 v0])
  let ?s = "the (calcular_estadisticas_embalse rs)"
  have s: "calcular_estadisticas_embalse rs = Some ?s"
    by (simp add: calcular_fields[OF srt])
  have sel: "k_h3a ?s = py_round2 (media_historica (df_hist_mes (sort_values_desc rs) (d_month (FECHA r0))) (FECHA r0) 3)"
    "k_h5a ?s = py_round2 (media_historica (df_hist_mes (sort_values_desc rs) (d_month (FECHA r0))) (FECHA r0) 5)"
    "k_h10a ?s = py_round2 (media_historica (df_hist_mes (sort_values_desc rs) (d_month (FECHA r0))) (FECHA r0) 10)"
    "k_h20a ?s = py_round2 (media_historica (df_hist_mes (sort_values_desc rs) (d_month (FECHA r0))) (FECHA r0) 20)"
    by (simp_all add: calcular_fields[OF srt])
  show ?thesis
  proof (intro exI[of _ ?s] conjI allI impI)
    show "calcular_estadisticas_embalse rs = Some ?s" by (rule s)
  next
    fix ref assume "is_reference_date rs ref"
    then have e: "ref = FECHA r0" by (rule uniq)
    show "k_h3a ?s = Fin (round2 (arithmetic_mean (map AGUA_ACTUAL (hist_window rs ref 3))))"
      unfolding e sel by (rule flds)
    show "k_h5a ?s = Fin (round2 (arithmetic_mean (map AGUA_ACTUAL (hist_window rs ref 5))))"
      unfolding e sel by (rule flds)
    show "k_h10a ?s = Fin (round2 (arithmetic_mean (map AGUA_ACTUAL (hist_window rs ref 10))))"
      unfolding e sel by (rule flds)
    show "k_h20a ?s = Fin (round2 (arithmetic_mean (map AGUA_ACTUAL (hist_window rs ref 20))))"
      unfolding e sel by (rule flds)
    show "\<forall>k\<in>{3, 5, 10, 20}. \<forall>r\<in>set (month_cohort rs ref).
              (toordinal (FECHA r) = toordinal (relativedelta_sub ref k 0) + 1
                 \<longrightarrow> r \<in> set (hist_window rs ref k))
            \<and> (FECHA r = relativedelta_sub ref k 0 \<longrightarrow> r \<in> set (hist_window rs ref k))
            \<and> (toordinal (FECHA r) < toordinal (relativedelta_sub ref k 0)
                 \<longrightarrow> r \<notin> set (hist_window rs ref k))"
      unfolding e by (rule bounds)
  qed
qed

theorem hist_window_boundary_inclusive_witness:
  "serie_limite \<noteq> [] \<and> list_all (\<lambda>r. valid_date (FECHA r)) serie_limite
   \<and> (\<exists>s. calcular_estadisticas_embalse serie_limite = Some s \<and> k_h3a s = Fin 20)
   \<and> registro 2021 3 16 20 \<in> set (hist_window serie_limite \<lparr>d_year = 2024, d_month = 3, d_day = 15\<rparr> 3)
   \<and> registro 2021 3 15 30 \<in> set (hist_window serie_limite \<lparr>d_year = 2024, d_month = 3, d_day = 15\<rparr> 3)
   \<and> registro 2021 3 14 40 \<notin> set (hist_window serie_limite \<lparr>d_year = 2024, d_month = 3, d_day = 15\<rparr> 3)"
proof -
  let ?ref = "\<lparr>d_year = 2024, d_month = 3, d_day = 15\<rparr>"
  have ne: "serie_limite \<noteq> []" by code_simp
  have val: "\<forall>r\<in>set serie_limite. valid_date (FECHA r)" by code_simp
  have ref: "is_reference_date serie_limite ?ref" by code_simp
  have r: "round2 (arithmetic_mean (map AGUA_ACTUAL (hist_window serie_limite ?ref 3))) = 20"
    by code_simp
  have c1: "registro 2021 3 16 20 \<in> set (month_cohort serie_limite ?ref)" by code_simp
  have c2: "registro 2021 3 15 30 \<in> set (month_cohort serie_limite ?ref)" by code_simp
  have c3: "registro 2021 3 14 40 \<in> set (month_cohort serie_limite ?ref)" by code_simp
  have o1: "toordinal (FECHA (registro 2021 3 16 20)) = toordinal (relativedelta_sub ?ref 3 0) + 1"
    by code_simp
  have o2: "FECHA (registro 2021 3 15 30) = relativedelta_sub ?ref 3 0" by code_simp
  have o3: "toordinal (FECHA (registro 2021 3 14 40)) < toordinal (relativedelta_sub ?ref 3 0)"
    by code_simp
  have k: "(3::int) \<in> {3, 5, 10, 20}" by simp
  obtain s where s: "calcular_estadisticas_embalse serie_limite = Some s"
    and f: "\<forall>ref. is_reference_date serie_limite ref \<longrightarrow>
          k_h3a s = Fin (round2 (arithmetic_mean (map AGUA_ACTUAL (hist_window serie_limite ref 3))))
        \<and> k_h5a s = Fin (round2 (arithmetic_mean (map AGUA_ACTUAL (hist_window serie_limite ref 5))))
        \<and> k_h10a s = Fin (round2 (arithmetic_mean (map AGUA_ACTUAL (hist_window serie_limite ref 10))))
        \<and> k_h20a s = Fin (round2 (arithmetic_mean (map AGUA_ACTUAL (hist_window serie_limite ref 20))))
        \<and> (\<forall>k\<in>{3, 5, 10, 20}. \<forall>r\<in>set (month_cohort serie_limite ref).
              (toordinal (FECHA r) = toordinal (relativedelta_sub ref k 0) + 1
                 \<longrightarrow> r \<in> set (hist_window serie_limite ref k))
            \<and> (FECHA r = relativedelta_sub ref k 0 \<longrightarrow> r \<in> set (hist_window serie_limite ref k))
            \<and> (toordinal (FECHA r) < toordinal (relativedelta_sub ref k 0)
                 \<longrightarrow> r \<notin> set (hist_window serie_limite ref k)))"
    using hist_window_boundary_inclusive[OF ne val] by blast
  note g = f[rule_format, OF ref]
  have h: "k_h3a s = Fin 20" using g r by simp
  have b: "\<forall>r\<in>set (month_cohort serie_limite ?ref).
              (toordinal (FECHA r) = toordinal (relativedelta_sub ?ref 3 0) + 1
                 \<longrightarrow> r \<in> set (hist_window serie_limite ?ref 3))
            \<and> (FECHA r = relativedelta_sub ?ref 3 0 \<longrightarrow> r \<in> set (hist_window serie_limite ?ref 3))
            \<and> (toordinal (FECHA r) < toordinal (relativedelta_sub ?ref 3 0)
                 \<longrightarrow> r \<notin> set (hist_window serie_limite ?ref 3))"
    using g k by blast
  have m1: "registro 2021 3 16 20 \<in> set (hist_window serie_limite ?ref 3)"
    using b[rule_format, OF c1] o1 by blast
  have m2: "registro 2021 3 15 30 \<in> set (hist_window serie_limite ?ref 3)"
    using b[rule_format, OF c2] o2 by blast
  have m3: "registro 2021 3 14 40 \<notin> set (hist_window serie_limite ?ref 3)"
    using b[rule_format, OF c3] o3 by blast
  show ?thesis using ne val[folded list_all_iff] s h m1 m2 m3 by blast
qed

text \<open>
  Claim C2 as stated fails: the record dated exactly three calendar years before the
  reference date is in the window of h3a, and h3a is 20, the mean of 10, 20 and 30, not
  the mean 15 of the two later records.
\<close>

theorem hist_window_exact_years_counterexample:
  "FECHA (registro 2021 3 15 30) = relativedelta_sub (FECHA (registro 2024 3 15 10)) 3 0
   \<and> d_month (FECHA (registro 2021 3 15 30)) = d_month (FECHA (registro 2024 3 15 10))
   \<and> sort_values_desc serie_limite
       = [registro 2024 3 15 10, registro 2021 3 16 20, registro 2021 3 15 30,
          registro 2021 3 14 40]
   \<and> df_historica (df_hist_mes (sort_values_desc serie_limite) 3)
         (FECHA (registro 2024 3 15 10)) 3
       = [registro 2024 3 15 10, registro 2021 3 16 20, registro 2021 3 15 30]
   \<and> map_option k_h3a (calcular_estadisticas_embalse serie_limite) = Some (Fin 20)
   \<and> round2 (arithmetic_mean [10, 20]) = 15"
  by code_simp





lemma prior_year_window_single:
  assumes "valid_date (FECHA r)"
  shows "prior_year_window [r] (FECHA r) = []"
proof (rule ccontr)
  assume "prior_year_window [r] (FECHA r) \<noteq> []"
  then obtain x where x: "x \<in> set (prior_year_window [r] (FECHA r))"
    by (meson last_in_set)
  then have "x = r" by (auto simp: prior_year_window_def Let_def split: if_splits)
  then show False
    using prior_year_window_excludes_reference[OF assms x] by simp
qed


section \<open>A series of one record\<close>



lemma ht_field:
  "py_round2 (mean (map AGUA_ACTUAL (df_hist_mes (sort_values_desc df) (d_month ref))))
   = (if month_cohort df ref = [] then NaN
      else Fin (round2 (arithmetic_mean (map AGUA_ACTUAL (month_cohort df ref)))))"
  unfolding mean_hist_mes_sorted by (rule round_mean_cases)

lemma where_notnull_simps:
  "where_notnull (CFloat (Fin x)) = CFloat (Fin x)"
  "where_notnull (CFloat NaN) = CNone"
  "where_notnull CNone = CNone"
  "where_notnull (CStr t) = CStr t"
  by (simp_all add: where_notnull_def)

lemma map_of_fila:
  "map_of (fila an en s) ''m1s'' = Some (where_notnull (CFloat (k_m1s s)))"
  "map_of (fila an en s) ''m2s'' = Some (where_notnull (CFloat (k_m2s s)))"
  "map_of (fila an en s) ''m1m'' = Some (where_notnull (CFloat (k_m1m s)))"
  "map_of (fila an en s) ''ma1''
     = Some (where_notnull (case k_ma1 s of None \<Rightarrow> CNone | Some x \<Rightarrow> CFloat x))"
  "map_of (fila an en s) ''h3a'' = Some (where_notnull (CFloat (k_h3a s)))"
  "map_of (fila an en s) ''h5a'' = Some (where_notnull (CFloat (k_h5a s)))"
  "map_of (fila an en s) ''h10a'' = Some (where_notnull (CFloat (k_h10a s)))"
  "map_of (fila an en s) ''h20a'' = Some (where_notnull (CFloat (k_h20a s)))"
  "map_of (fila an en s) ''ht'' = Some (where_notnull (CFloat (k_ht s)))"
  "map_of (fila an en s) ''aa'' = Some (where_notnull (CFloat (k_aa s)))"
  "map_of (fila an en s) ''at'' = Some (where_notnull (CFloat (k_at s)))"
  by (simp_all add: fila_def)

lemma calcular_in_words:
  assumes "rs \<noteq> []" "\<forall>r\<in>set rs. valid_date (FECHA r)"
  obtains s r0 where
    "calcular_estadisticas_embalse rs = Some s"
    "r0 \<in> set rs" "is_reference_date rs (FECHA r0)"
    "\<And>ref. is_reference_date rs ref \<Longrightarrow> ref = FECHA r0"
    "k_aa s = Fin (round2 (AGUA_ACTUAL r0))"
    "k_at s = Fin (round2 (AGUA_TOTAL r0))"
    "k_f s = FECHA r0"
    "\<And>n. n \<in> {7, 14, 30} \<Longrightarrow> rolling_window rs (FECHA r0) n \<noteq> []"
    "k_m1s s = Fin (round2 (arithmetic_mean (map AGUA_ACTUAL (rolling_window rs (FECHA r0) 7))))"
    "k_m2s s = Fin (round2 (arithmetic_mean (map AGUA_ACTUAL (rolling_window rs (FECHA r0) 14))))"
    "k_m1m s = Fin (round2 (arithmetic_mean (map AGUA_ACTUAL (rolling_window rs (FECHA r0) 30))))"
    "k_ma1 s = (if prior_year_window rs (FECHA r0) = [] then None
                else Some (Fin (round2 (arithmetic_mean
                       (map AGUA_ACTUAL (prior_year_window rs (FECHA r0)))))))"
    "\<And>k. k \<in> {3, 5, 10, 20} \<Longrightarrow> hist_window rs (FECHA r0) k \<noteq> []"
    "k_h3a s = Fin (round2 (arithmetic_mean (map AGUA_ACTUAL (hist_window rs (FECHA r0) 3))))"
    "k_h5a s = Fin (round2 (arithmetic_mean (map AGUA_ACTUAL (hist_window rs (FECHA r0) 5))))"
    "k_h10a s = Fin (round2 (arithmetic_mean (map AGUA_ACTUAL (hist_window rs (FECHA r0) 10))))"
    "k_h20a s = Fin (round2 (arithmetic_mean (map AGUA_ACTUAL (hist_window rs (FECHA r0) 20))))"
    "month_cohort rs (FECHA r0) \<noteq> []"
    "k_ht s = Fin (round2 (arithmetic_mean (map AGUA_ACTUAL (month_cohort rs (FECHA r0)))))"
proof -
  obtain r0 rest where srt: "sort_values_desc rs = r0 # rest"
    using assms(1) by (rule sort_values_desc_nonempty)
  have in0: "r0 \<in> set rs" using srt by (rule sort_values_desc_head(1))
  have v0: "valid_date (FECHA r0)" using in0 assms(2) by simp
  have r0: "is_reference_date rs (FECHA r0)" using srt by (rule is_reference_date_head)
  have uniq: "\<And>ref. is_reference_date rs ref \<Longrightarrow> ref = FECHA r0"
    using reference_date_unique[OF srt _ assms(2)] by blast
  let ?s = "the (calcular_estadisticas_embalse rs)"
  have s: "calcular_estadisticas_embalse rs = Some ?s"
    by (simp add: calcular_fields[OF srt])
  have rne: "\<And>n. n \<in> {7, 14, 30} \<Longrightarrow> rolling_window rs (FECHA r0) n \<noteq> []"
    using rolling_window_nonempty[OF r0] by auto
  have hne: "\<And>k. k \<in> {3, 5, 10, 20} \<Longrightarrow> hist_window rs (FECHA r0) k \<noteq> []"
    using hist_window_nonempty[OF r0 v0] by auto
  have cne: "month_cohort rs (FECHA r0) \<noteq> []"
    using r0 by (rule month_cohort_nonempty)
  show ?thesis
  proof (rule that[of ?s r0])
    show "k_aa ?s = Fin (round2 (AGUA_ACTUAL r0))" by (simp add: calcular_fields[OF srt])
    show "k_at ?s = Fin (round2 (AGUA_TOTAL r0))" by (simp add: calcular_fields[OF srt])
    show "k_f ?s = FECHA r0" by (simp add: calcular_fields[OF srt])
    show "k_m1s ?s = Fin (round2 (arithmetic_mean (map AGUA_ACTUAL (rolling_window rs (FECHA r0) 7))))"
      by (simp add: calcular_fields[OF srt] rolling_field[OF srt r0])
    show "k_m2s ?s = Fin (round2 (arithmetic_mean (map AGUA_ACTUAL (rolling_window rs (FECHA r0) 14))))"
      by (simp add: calcular_fields[OF srt] rolling_field[OF srt r0])
    show "k_m1m ?s = Fin (round2 (arithmetic_mean (map AGUA_ACTUAL (rolling_window rs (FECHA r0) 30))))"
      by (simp add: calcular_fields[OF srt] rolling_field[OF srt r0])
    show "k_ma1 ?s = (if prior_year_window rs (FECHA r0) = [] then None
                else Some (Fin (round2 (arithmetic_mean
                       (map AGUA_ACTUAL (prior_year_window rs (FECHA r0)))))))"
      using ma1_field[OF assms(2) v0] by (simp add: calcular_fields[OF srt])
    show "k_h3a ?s = Fin (round2 (arithmetic_mean (map AGUA_ACTUAL (hist_window rs (FECHA r0) 3))))"
      by (simp add: calcular_fields[OF srt] hist_field_nonempty[OF r0 v0])
    show "k_h5a ?s = Fin (round2 (arithmetic_mean (map AGUA_ACTUAL (hist_window rs (FECHA r0) 5))))"
      by (simp add: calcular_fields[OF srt] hist_field_nonempty[OF r0 v0])
    show "k_h10a ?s = Fin (round2 (arithmetic_mean (map AGUA_ACTUAL (hist_window rs (FECHA r0) 10))))"
      by (simp add: calcular_fields[OF srt] hist_field_nonempty[OF r0 v0])
    show "k_h20a ?s = Fin (round2 (arithmetic_mean (map AGUA_ACTUAL (hist_window rs (FECHA r0) 20))))"
      by (simp add: calcular_fields[OF srt] hist_field_nonempty[OF r0 v0])
    show "k_ht ?s = Fin (round2 (arithmetic_mean (map AGUA_ACTUAL (month_cohort rs (FECHA r0)))))"
      using cne by (simp add: calcular_fields[OF srt] ht_field)
    show "calcular_estadisticas_embalse rs = Some ?s" by (rule s)
    show "r0 \<in> set rs" by (rule in0)
    show "is_reference_date rs (FECHA r0)" by (rule r0)
    show "\<And>ref. is_reference_date rs ref \<Longrightarrow> ref = FECHA r0" by (rule uniq)
    show "\<And>n. n \<in> {7, 14, 30} \<Longrightarrow> rolling_window rs (FECHA r0) n \<noteq> []" by (rule rne)
    show "\<And>k. k \<in> {3, 5, 10, 20} \<Longrightarrow> hist_window rs (FECHA r0) k \<noteq> []" by (rule hne)
    show "month_cohort rs (FECHA r0) \<noteq> []" by (rule cne)
  qed
qed

section \<open>Fields that are never null\<close>

text \<open>
  Claim C10. For a non-empty series the rolling means m1s, m2s, m1m and the month-anchored
  means h3a, h5a, h10a, h20a, ht are numbers in the output record, never null, since the
  reference record lies in each of their windows; ma1 can be null.
\<close>

theorem only_ma1_can_be_null:
  "(\<forall>rs. rs \<noteq> [] \<and> (\<forall>r\<in>set rs. valid_date (FECHA r)) \<longrightarrow>
      (\<exists>s. calcular_estadisticas_embalse rs = Some s
         \<and> (\<forall>key\<in>set [''m1s'', ''m2s'', ''m1m'', ''h3a'', ''h5a'', ''h10a'', ''h20a'', ''ht''].
               \<exists>x. map_of (fila an en s) key = Some (CFloat (Fin x)))))
   \<and> (\<exists>rs. rs \<noteq> [] \<and> (\<forall>r\<in>set rs. valid_date (FECHA r))
         \<and> (\<exists>s. calcular_estadisticas_embalse rs = Some s
               \<and> map_of (fila an en s) ''ma1'' = Some CNone))"
proof (intro conjI allI impI)
  fix rs :: "raw_record list"
  assume a: "rs \<noteq> [] \<and> (\<forall>r\<in>set rs. valid_date (FECHA r))"
  then have ne: "rs \<noteq> []" and val: "\<forall>r\<in>set rs. valid_date (FECHA r)" by simp_all
  from ne val obtain s r0 where s: "calcular_estadisticas_embalse rs = Some s"
    and f: "\<exists>x. k_m1s s = Fin x" "\<exists>x. k_m2s s = Fin x" "\<exists>x. k_m1m s = Fin x"
      "\<exists>x. k_h3a s = Fin x" "\<exists>x. k_h5a s = Fin x" "\<exists>x. k_h10a s = Fin x"
      "\<exists>x. k_h20a s = Fin x" "\<exists>x. k_ht s = Fin x"
    by (rule calcular_in_words) blast
  have "\<forall>key\<in>set [''m1s'', ''m2s'', ''m1m'', ''h3a'', ''h5a'', ''h10a'', ''h20a'', ''ht''].
               \<exists>x. map_of (fila an en s) key = Some (CFloat (Fin x))"
    using f by (auto simp: map_of_fila where_notnull_simps)
  then show "\<exists>s. calcular_estadisticas_embalse rs = Some s
         \<and> (\<forall>key\<in>set [''m1s'', ''m2s'', ''m1m'', ''h3a'', ''h5a'', ''h10a'', ''h20a'', ''ht''].
               \<exists>x. map_of (fila an en s) key = Some (CFloat (Fin x)))"
    using s by blast
next
  let ?r = "registro 2024 3 15 10"
  have v: "valid_date (FECHA ?r)" by code_simp
  have ne: "[?r] \<noteq> []" by simp
  have val: "\<forall>r\<in>set [?r]. valid_date (FECHA r)" using v by simp
  from ne val obtain s r0 where s: "calcular_estadisticas_embalse [?r] = Some s"
    and r0: "r0 \<in> set [?r]"
    and m: "k_ma1 s = (if prior_year_window [?r] (FECHA r0) = [] then None
                else Some (Fin (round2 (arithmetic_mean
                       (map AGUA_ACTUAL (prior_year_window [?r] (FECHA r0)))))))"
    by (rule calcular_in_words) blast
  have "r0 = ?r" using r0 by simp
  then have "k_ma1 s = None"
    using m prior_year_window_single[OF v] by simp
  then have "map_of (fila an en s) ''ma1'' = Some CNone"
    by (simp add: map_of_fila where_notnull_simps)
  then show "\<exists>rs. rs \<noteq> [] \<and> (\<forall>r\<in>set rs. valid_date (FECHA r))
         \<and> (\<exists>s. calcular_estadisticas_embalse rs = Some s
               \<and> map_of (fila an en s) ''ma1'' = Some CNone)"
    using ne val s by blast
qed

theorem only_ma1_can_be_null_witness:
  "serie_ejemplo \<noteq> [] \<and> list_all (\<lambda>r. valid_date (FECHA r)) serie_ejemplo
   \<and> (\<exists>s. calcular_estadisticas_embalse serie_ejemplo = Some s
         \<and> (\<exists>x. map_of (fila ''Tajo'' ''Buendia'' s) ''m1s'' = Some (CFloat (Fin x)))
         \<and> (\<exists>x. map_of (fila ''Tajo'' ''Buendia'' s) ''h20a'' = Some (CFloat (Fin x)))
         \<and> (\<exists>x. map_of (fila ''Tajo'' ''Buendia'' s) ''ht'' = Some (CFloat (Fin x))))"
proof -
  have ne: "serie_ejemplo \<noteq> []" by code_simp
  have val: "\<forall>r\<in>set serie_ejemplo. valid_date (FECHA r)" by code_simp
  have "\<exists>s. calcular_estadisticas_embalse serie_ejemplo = Some s
         \<and> (\<forall>key\<in>set [''m1s'', ''m2s'', ''m1m'', ''h3a'', ''h5a'', ''h10a'', ''h20a'', ''ht''].
               \<exists>x. map_of (fila ''Tajo'' ''Buendia'' s) key = Some (CFloat (Fin x)))"
    using only_ma1_can_be_null[of "''Tajo''" "''Buendia''"] ne val by blast
  then obtain s where s: "calcular_estadisticas_embalse serie_ejemplo = Some s"
    and k: "\<forall>key\<in>set [''m1s'', ''m2s'', ''m1m'', ''h3a'', ''h5a'', ''h10a'', ''h20a'', ''ht''].
               \<exists>x. map_of (fila ''Tajo'' ''Buendia'' s) key = Some (CFloat (Fin x))"
    by blast
  have "\<exists>x. map_of (fila ''Tajo'' ''Buendia'' s) ''m1s'' = Some (CFloat (Fin x))"
    "\<exists>x. map_of (fila ''Tajo'' ''Buendia'' s) ''h20a'' = Some (CFloat (Fin x))"
    "\<exists>x. map_of (fila ''Tajo'' ''Buendia'' s) ''ht'' = Some (CFloat (Fin x))"
    using k by simp_all
  then show ?thesis using ne val[folded list_all_iff] s by blast
qed

section \<open>Empty windows\<close>





section \<open>Rounding\<close>




lemma scan_append:
  "scan st (xs @ ys) = (case scan st xs of None \<Rightarrow> None | Some st' \<Rightarrow> scan st' ys)"
  by (induction st xs rule: scan.induct) simp_all

lemma scan_plain:
  assumes "\<forall>c\<in>set xs. \<not> is_ws c \<and> c \<noteq> dq"
  shows "scan Outside xs = Some Outside"
  using assms by (induction xs) simp_all

lemma dq_bs_codes: "of_char dq = (34::nat)" "of_char bs = (92::nat)"
  by (simp_all add: dq_def bs_def)

lemma hexdigit_plain:
  assumes "n < 16"
  shows "hexdigit n \<noteq> dq" "hexdigit n \<noteq> bs" "hexdigit n \<noteq> CHR 0x0A"
proof -
  have c: "of_char (hexdigit n) = (if n < 10 then 48 + n else 87 + n)"
    using assms by (simp add: hexdigit_def)
  show "hexdigit n \<noteq> dq"
  proof
    assume "hexdigit n = dq"
    then have "(of_char (hexdigit n) :: nat) = 34" by (simp add: dq_def)
    then show False using c assms by (simp split: if_splits)
  qed
  show "hexdigit n \<noteq> bs"
  proof
    assume "hexdigit n = bs"
    then have "(of_char (hexdigit n) :: nat) = 92" by (simp add: bs_def)
    then show False using c assms by (simp split: if_splits)
  qed
  show "hexdigit n \<noteq> CHR 0x0A"
  proof
    assume "hexdigit n = CHR 0x0A"
    then have "(of_char (hexdigit n) :: nat) = 10" by simp
    then show False using c assms by (simp split: if_splits)
  qed
qed

lemma scan_escape_char: "scan Inside (escape_char c @ rest) = scan Inside rest"
proof -
  have h: "(of_char c :: nat) < 32 \<Longrightarrow> of_char c div 16 < (16::nat)" by simp
  have l: "of_char c mod 16 < (16::nat)" by simp
  show ?thesis
    unfolding escape_char_def
    using hexdigit_plain[OF l] hexdigit_plain[of "of_char c div 16"]
    by (simp add: dq_def bs_def)
qed

lemma scan_escaped_string: "scan Inside (concat (map escape_char s) @ rest) = scan Inside rest"
  by (induction s) (simp_all add: scan_escape_char)

lemma scan_encode_basestring:
  "scan Outside (encode_basestring s @ rest) = scan Outside rest"
proof -
  have "\<not> is_ws dq" by (simp add: is_ws_def dq_def)
  moreover have "dq \<noteq> bs" by (simp add: dq_def bs_def)
  ultimately show ?thesis
    using scan_escaped_string[of s "dq # rest"]
    by (simp add: encode_basestring_def)
qed

lemma ws_dq_codes:
  "is_ws c \<Longrightarrow> (of_char c :: nat) < 48"
  "(of_char dq :: nat) < 48"
  by (auto simp: is_ws_def dq_def)

lemma plain_of_code:
  assumes "48 \<le> (of_char c :: nat)"
  shows "\<not> is_ws c" "c \<noteq> dq"
proof -
  show "\<not> is_ws c" using ws_dq_codes(1)[of c] assms by linarith
  show "c \<noteq> dq"
  proof
    assume "c = dq"
    then have "(of_char c :: nat) < 48" by (simp add: ws_dq_codes(2))
    then show False using assms by linarith
  qed
qed

lemma digit_plain:
  assumes "n < 10"
  shows "\<not> is_ws (digit n)" "digit n \<noteq> dq"
proof -
  have c: "(of_char (digit n) :: nat) = 48 + n" using assms by (simp add: digit_def)
  then have "48 \<le> (of_char (digit n) :: nat)" by simp
  then show "\<not> is_ws (digit n)" "digit n \<noteq> dq" by (rule plain_of_code)+
qed

lemma str_nat_plain: "\<forall>c\<in>set (str_nat n). \<not> is_ws c \<and> c \<noteq> dq"
proof (induction n rule: str_nat.induct)
  case (1 n)
  show ?case
  proof (cases "n < 10")
    case True
    have "str_nat n = [digit n]" using True by (simp add: str_nat.simps[of n])
    then show ?thesis using digit_plain[OF True] by simp
  next
    case False
    have m: "n mod 10 < 10" by simp
    have e: "str_nat n = str_nat (n div 10) @ [digit (n mod 10)]"
      using False by (simp add: str_nat.simps[of n])
    have ih: "\<forall>c\<in>set (str_nat (n div 10)). \<not> is_ws c \<and> c \<noteq> dq"
      using 1 False by simp
    show ?thesis unfolding e using ih digit_plain[OF m] by simp
  qed
qed

lemma zero_plain: "\<not> is_ws (CHR ''0'')" "CHR ''0'' \<noteq> dq"
  by (rule plain_of_code; simp)+

lemma zfill_plain:
  assumes "\<forall>c\<in>set s. \<not> is_ws c \<and> c \<noteq> dq"
  shows "\<forall>c\<in>set (zfill w s). \<not> is_ws c \<and> c \<noteq> dq"
proof
  fix c assume c: "c \<in> set (zfill w s)"
  have sub: "set (zfill w s) \<subseteq> insert (CHR ''0'') (set s)"
    unfolding zfill_def by (simp add: set_replicate_conv_if subset_insertI)
  have "c \<in> insert (CHR ''0'') (set s)" using sub c by (rule subsetD)
  then have "c = CHR ''0'' \<or> c \<in> set s" by (simp only: insert_iff)
  then show "\<not> is_ws c \<and> c \<noteq> dq"
  proof
    assume "c = CHR ''0''"
    then show ?thesis using zero_plain by (simp only: simp_thms)
  next
    assume "c \<in> set s"
    with assms show ?thesis by (rule bspec)
  qed
qed


lemma float_repr_plain: "\<forall>c\<in>set (float_repr x). \<not> is_ws c \<and> c \<noteq> dq"
proof -
  define c where "c = \<lfloor>\<bar>x\<bar> * 100\<rfloor>"
  define sgn where "sgn = (if x < 0 then ''-'' else [])"
  define frac where "frac = (if nat (c mod 100) mod 10 = 0 then str_nat (nat (c mod 100) div 10)
                             else zfill 2 (str_nat (nat (c mod 100))))"
  have e: "float_repr x = sgn @ str_nat (nat (c div 100)) @ ''.'' @ frac"
    unfolding float_repr_def Let_def c_def sgn_def frac_def by (rule refl)
  have minus: "\<not> is_ws (CHR ''-'') \<and> CHR ''-'' \<noteq> dq"
    by (simp add: is_ws_def dq_def)
  have dot: "\<not> is_ws (CHR ''.'') \<and> CHR ''.'' \<noteq> dq"
    by (simp add: is_ws_def dq_def)
  have p1: "\<forall>ch\<in>set sgn. \<not> is_ws ch \<and> ch \<noteq> dq"
    unfolding sgn_def using minus by simp
  have p2: "\<forall>ch\<in>set ''.''. \<not> is_ws ch \<and> ch \<noteq> dq"
    using dot by simp
  have p3: "\<forall>ch\<in>set frac. \<not> is_ws ch \<and> ch \<noteq> dq"
  proof (cases "nat (c mod 100) mod 10 = 0")
    case True
    then have f: "frac = str_nat (nat (c mod 100) div 10)" by (simp add: frac_def)
    show ?thesis unfolding f by (rule str_nat_plain)
  next
    case False
    then have f: "frac = zfill 2 (str_nat (nat (c mod 100)))" by (simp add: frac_def)
    show ?thesis unfolding f by (rule zfill_plain[OF str_nat_plain])
  qed
  show ?thesis
    unfolding e set_append ball_Un
    by (intro conjI p1 p2 p3 str_nat_plain)
qed

lemma scan_dumps_cell: "scan Outside (dumps_cell v @ rest) = scan Outside rest"
proof (cases v)
  case (CFloat x)
  show ?thesis
  proof (cases x)
    case (Fin q)
    show ?thesis
      unfolding CFloat Fin dumps_cell.simps scan_append
      by (simp add: scan_plain[OF float_repr_plain])
  next
    case NaN
    show ?thesis unfolding CFloat NaN by (simp add: is_ws_def dq_def)
  qed
next
  case (CStr s)
  show ?thesis unfolding CStr by (simp add: scan_encode_basestring)
next
  case CNone
  show ?thesis unfolding CNone by (simp add: is_ws_def dq_def)
qed

lemma scan_item:
  "scan Outside ((encode_basestring k @ '':'' @ dumps_cell v) @ rest) = scan Outside rest"
proof -
  have "scan Outside (CHR '':'' # dumps_cell v @ rest) = scan Outside (dumps_cell v @ rest)"
    by (simp add: is_ws_def dq_def)
  then show ?thesis
    using scan_encode_basestring[of k "'':'' @ dumps_cell v @ rest"]
    by (simp add: scan_dumps_cell)
qed

lemma scan_join:
  assumes f: "\<And>x rest. scan Outside (f x @ rest) = scan Outside rest"
    and sep: "\<And>rest. scan Outside (sep @ rest) = scan Outside rest"
  shows "scan Outside (join sep (map f xs) @ rest) = scan Outside rest"
proof (induction xs)
  case Nil
  show ?case by simp
next
  case (Cons x xs)
  show ?case
  proof (cases xs)
    case Nil
    show ?thesis unfolding Nil by (simp add: f)
  next
    case (Cons y zs)
    have "join sep (map f (x # xs)) @ rest = f x @ (sep @ (join sep (map f xs) @ rest))"
      unfolding Cons by simp
    then show ?thesis
      by (simp only: f sep Cons.IH)
  qed
qed

lemma scan_join_items:
  "scan Outside (join '','' (map (\<lambda>(k, v). encode_basestring k @ '':'' @ dumps_cell v) reg) @ rest)
   = scan Outside rest"
proof (rule scan_join)
  fix x :: "string \<times> cell" and rest
  obtain k v where x: "x = (k, v)" by (cases x)
  show "scan Outside ((case x of (k, v) \<Rightarrow> encode_basestring k @ '':'' @ dumps_cell v) @ rest)
        = scan Outside rest"
    unfolding x prod.case by (rule scan_item)
next
  fix rest
  show "scan Outside ('','' @ rest) = scan Outside rest"
    by (simp add: is_ws_def dq_def)
qed

lemma dense_dumps_compact: "dense (dumps_compact reg)"
proof -
  let ?items = "join '','' (map (\<lambda>(k, v). encode_basestring k @ '':'' @ dumps_cell v) reg)"
  have a: "scan Outside (''{'' @ t) = scan Outside t" for t
    by (simp add: is_ws_def dq_def)
  have b: "scan Outside ''}'' = Some Outside"
    by (simp add: is_ws_def dq_def)
  have "dumps_compact reg = ''{'' @ (?items @ ''}'')"
    unfolding dumps_compact_def by (simp only: append_assoc)
  then have "scan Outside (dumps_compact reg) = scan Outside (''{'' @ (?items @ ''}''))"
    by (rule arg_cong)
  also have "\<dots> = scan Outside (?items @ ''}'')" by (rule a)
  also have "\<dots> = scan Outside ''}''" by (rule scan_join_items)
  also have "\<dots> = Some Outside" by (rule b)
  finally show ?thesis unfolding dense_def .
qed

lemma newline_is_ws: "is_ws (CHR 0x0A)"
  by (simp add: is_ws_def)

lemma plain_no_newline:
  assumes "\<forall>c\<in>set xs. \<not> is_ws c \<and> c \<noteq> dq"
  shows "CHR 0x0A \<notin> set xs"
proof
  assume "CHR 0x0A \<in> set xs"
  with assms have "\<not> is_ws (CHR 0x0A) \<and> CHR 0x0A \<noteq> dq" by (rule bspec)
  then show False using newline_is_ws by simp
qed

lemma escape_char_no_newline: "CHR 0x0A \<notin> set (escape_char c)"
proof -
  have l: "of_char c mod 16 < (16::nat)" by simp
  have h: "(of_char c :: nat) < 32 \<Longrightarrow> of_char c div 16 < (16::nat)" by simp
  have b: "bs \<noteq> CHR 0x0A" "dq \<noteq> CHR 0x0A" by (simp_all add: bs_def dq_def)
  show ?thesis
  proof (cases "(of_char c :: nat) < 32")
    case True
    show ?thesis
      unfolding escape_char_def
      using b hexdigit_plain(3)[OF l] hexdigit_plain(3)[OF h[OF True]]
      by (simp add: eq_commute[of "CHR 0x0A"])
  next
    case False
    then have "c \<noteq> CHR 0x0A" by fastforce
    then show ?thesis
      unfolding escape_char_def using b False
      by (simp add: eq_commute[of "CHR 0x0A"])
  qed
qed

lemma encode_basestring_no_newline: "CHR 0x0A \<notin> set (encode_basestring s)"
proof -
  have "CHR 0x0A \<notin> set (concat (map escape_char s))"
    using escape_char_no_newline by (induction s) simp_all
  moreover have "dq \<noteq> CHR 0x0A" by (simp add: dq_def)
  ultimately show ?thesis
    by (simp add: encode_basestring_def eq_commute[of "CHR 0x0A"])
qed

lemma dumps_cell_no_newline: "CHR 0x0A \<notin> set (dumps_cell v)"
proof (cases v)
  case (CFloat x)
  show ?thesis
  proof (cases x)
    case (Fin q)
    show ?thesis unfolding CFloat Fin dumps_cell.simps
      by (rule plain_no_newline[OF float_repr_plain])
  next
    case NaN
    show ?thesis unfolding CFloat NaN by simp
  qed
next
  case (CStr s)
  show ?thesis unfolding CStr by (simp add: encode_basestring_no_newline)
next
  case CNone
  show ?thesis unfolding CNone by simp
qed

lemma join_no_newline:
  assumes "\<And>x. CHR 0x0A \<notin> set (f x)" "CHR 0x0A \<notin> set sep"
  shows "CHR 0x0A \<notin> set (join sep (map f xs))"
proof (induction xs)
  case Nil
  show ?case by simp
next
  case (Cons x xs)
  show ?case
  proof (cases xs)
    case Nil
    show ?thesis unfolding Nil using assms(1) by simp
  next
    case (Cons y zs)
    have "join sep (map f (x # xs)) = f x @ sep @ join sep (map f xs)"
      unfolding Cons by simp
    then show ?thesis using assms Cons.IH by simp
  qed
qed

lemma dumps_compact_no_newline: "CHR 0x0A \<notin> set (dumps_compact reg)"
proof -
  have item: "CHR 0x0A \<notin> set (case x of (k, v) \<Rightarrow> encode_basestring k @ '':'' @ dumps_cell v)"
    for x :: "string \<times> cell"
    by (cases x) (simp add: encode_basestring_no_newline dumps_cell_no_newline)
  have "CHR 0x0A \<notin> set (join '','' (map (\<lambda>(k, v). encode_basestring k @ '':'' @ dumps_cell v) reg))"
  proof (rule join_no_newline)
    fix x :: "string \<times> cell"
    show "CHR 0x0A \<notin> set (case x of (k, v) \<Rightarrow> encode_basestring k @ '':'' @ dumps_cell v)"
      by (rule item)
    show "CHR 0x0A \<notin> set '',''" by simp
  qed
  then show ?thesis by (simp add: dumps_compact_def)
qed

end
